theory Spec2Isabelle
  imports Complex_Main "HOL-Library.AList"
begin

section \<open>JavaScript values and errors\<close>

text \<open>
  The values a caller can pass where the source expects a string or an object, with
  JavaScript's \<open>typeof\<close>, truthiness and \<open>String(...)\<close> on them. \<open>JNum\<close> holds the
  integer-valued numbers; \<open>JObject\<close> stands for any plain object.
\<close>

datatype jsval = JUndefined | JNull | JBool bool | JNum int | JStr string | JObject

fun typeof :: "jsval \<Rightarrow> string" where
  "typeof JUndefined = ''undefined''"
| "typeof JNull = ''object''"
| "typeof (JBool b) = ''boolean''"
| "typeof (JNum n) = ''number''"
| "typeof (JStr s) = ''string''"
| "typeof JObject = ''object''"

fun truthy :: "jsval \<Rightarrow> bool" where
  "truthy JUndefined = False"
| "truthy JNull = False"
| "truthy (JBool b) = b"
| "truthy (JNum n) = (n \<noteq> 0)"
| "truthy (JStr s) = (s \<noteq> [])"
| "truthy JObject = True"

fun the_string :: "jsval \<Rightarrow> string" where
  "the_string (JStr s) = s"
| "the_string v = []"

definition digit_char :: "nat \<Rightarrow> char" where
  "digit_char n = char_of (48 + n)"

fun nat_digits :: "nat \<Rightarrow> string" where
  "nat_digits n =
     (if n < 10 then [digit_char n] else nat_digits (n div 10) @ [digit_char (n mod 10)])"

declare nat_digits.simps [simp del]

text \<open>\<open>String(v)\<close>; for a number, the decimal form JavaScript prints below \<open>10^21\<close>.\<close>

fun js_String :: "jsval \<Rightarrow> string" where
  "js_String JUndefined = ''undefined''"
| "js_String JNull = ''null''"
| "js_String (JBool b) = (if b then ''true'' else ''false'')"
| "js_String (JNum n) = (if n < 0 then CHR ''-'' # nat_digits (nat (- n)) else nat_digits (nat n))"
| "js_String (JStr s) = s"
| "js_String JObject = ''[object Object]''"

text \<open>
  What a JavaScript \<open>throw\<close> can carry here: \<open>Thrown\<close> is an exception raised by a
  collaborator (the HTTP transport, an event listener), \<open>TypeError\<close> the engine's own,
  and the two classes of the source with their constructor arguments. \<open>ValidationError\<close>
  has \<open>meta = {param}\<close>, \<open>FetchError\<close> has \<open>meta = {url, attempts}\<close> and \<open>cause\<close>.
\<close>

datatype js_error =
    Thrown string
  | TypeError string
  | ValidationError (meta_param: string) (err_reason: string)
  | FetchError (meta_url: string) (meta_attempts: int) (err_cause: js_error)

fun error_code :: "js_error \<Rightarrow> string option" where
  "error_code (ValidationError p r) = Some ''ERR_VALIDATION''"
| "error_code (FetchError u n c) = Some ''ERR_FETCH_FAILED''"
| "error_code e = None"

text \<open>
  \<open>_assert(value, expectation, label)\<close>: an expectation is \<open>'string'\<close>, \<open>'object'\<close> or
  \<open>true\<close>. The result is the error thrown, if any. (Names of the source that start with
  an underscore are written without it.)
\<close>

datatype expectation = ExpString | ExpObject | ExpTrue

definition assert_js :: "jsval \<Rightarrow> expectation \<Rightarrow> string \<Rightarrow> js_error option" where
  "assert_js v expectation label =
     (if expectation = ExpString \<and> typeof v \<noteq> ''string''
        then Some (ValidationError label ''must be a string'')
      else if expectation = ExpObject \<and> (typeof v \<noteq> ''object'' \<or> v = JNull)
        then Some (ValidationError label ''must be a non-null object'')
      else if expectation = ExpTrue \<and> \<not> truthy v
        then Some (ValidationError label ''assertion failed'')
      else None)"

section \<open>Configuration, instance state and the world around it\<close>

text \<open>
  The frozen \<open>_opts\<close> of an instance, as far as \<open>fetch\<close> reads them. Counts are
  integers, times (milliseconds) and rates are rationals.
\<close>

record cache_policy =
  ttl :: rat
  maxSize :: int

record opts =
  maxRetries :: int
  retryDelay :: rat
  rateLimit :: "rat option"
  rotateUserAgent :: bool
  cache :: "cache_policy option"

definition DEFAULT_CONCURRENCY :: nat where "DEFAULT_CONCURRENCY = 3"
definition DEFAULT_MAX_PAGES :: int where "DEFAULT_MAX_PAGES = 50"

definition UA_POOL :: "string list" where
  "UA_POOL =
    [''Mozilla/5.0 (Windows NT 10.0; Win64; x64) AppleWebKit/537.36 (KHTML, like Gecko) Chrome/131.0.0.0 Safari/537.36'',
     ''Mozilla/5.0 (Macintosh; Intel Mac OS X 14_5) AppleWebKit/537.36 (KHTML, like Gecko) Chrome/131.0.0.0 Safari/537.36'',
     ''Mozilla/5.0 (X11; Linux x86_64) AppleWebKit/537.36 (KHTML, like Gecko) Chrome/131.0.0.0 Safari/537.36'',
     ''Mozilla/5.0 (Windows NT 10.0; Win64; x64; rv:133.0) Gecko/20100101 Firefox/133.0'',
     ''Mozilla/5.0 (Macintosh; Intel Mac OS X 14_5) AppleWebKit/605.1.15 (KHTML, like Gecko) Version/18.1 Safari/605.1.15'']"

text \<open>
  A cache entry \<open>{data, ts}\<close>. The JavaScript \<open>Map\<close> is an association list in insertion
  order with distinct keys: \<open>Map.get\<close> is \<open>map_of\<close>, \<open>Map.delete\<close> is \<open>AList.delete\<close>,
  \<open>Map.set\<close> is \<open>AList.update\<close> (an existing key keeps its place, a new key goes
  last), \<open>Map.size\<close> is \<open>length\<close> and \<open>Map.keys().next().value\<close> is the first key.
\<close>

record cache_entry =
  data :: string
  ts :: rat

type_synonym js_map = "(string \<times> cache_entry) list"

text \<open>
  The events of the emitter and the actions a call performs on the world, logged in
  order: an \<open>emit\<close>, a \<open>_sleep(ms)\<close>, a call of the transport \<open>this._http.get(url)\<close>.
\<close>

datatype event =
    Request string
  | Response string int
  | Retry string int js_error
  | ErrorEv js_error
  | CacheHit string

datatype action = Emit event | Sleep rat | HttpGet string

text \<open>
  The mutable fields of an instance (\<open>_lastRequestAt\<close>, \<open>_uaIndex\<close>, the transport's
  default \<open>User-Agent\<close> header, \<open>_cache\<close>) and the world: the clock \<open>Date.now()\<close> reads,
  the number of transport calls made so far, and the log of actions. The constructor sets
  \<open>_cache\<close> to a new \<open>Map\<close> exactly when \<open>opts.cache\<close> is set and neither changes later,
  so \<open>if (this._cache)\<close> is the test \<open>cache o \<noteq> None\<close> and \<open>cache_store\<close> is the map.
\<close>

record scrapely =
  lastRequestAt :: rat
  uaIndex :: nat
  userAgent :: string
  cache_store :: js_map
  clock :: rat
  calls :: nat
  trace :: "action list"

record response =
  status :: int
  res_data :: jsval

text \<open>
  The collaborators of \<open>fetch\<close>. \<open>http_get n url\<close> is what the \<open>n\<close>-th call of the
  transport (counted from 0) does for \<open>url\<close>: the time it takes, and the response or the
  exception. \<open>on_event ev\<close> is the exception the listeners registered for \<open>ev\<close> raise when
  called with it, if any; \<open>has_error_listener\<close> says whether an \<open>'error'\<close> listener is
  registered.
\<close>

record env =
  http_get :: "nat \<Rightarrow> string \<Rightarrow> rat \<times> (js_error + response)"
  on_event :: "event \<Rightarrow> js_error option"
  has_error_listener :: bool

text \<open>
  Node's \<open>EventEmitter.emit\<close> calls the listeners synchronously and an exception of a
  listener propagates to the caller of \<open>emit\<close>; an \<open>'error'\<close> event without a listener
  throws the error it carries.
\<close>

definition emit :: "env \<Rightarrow> event \<Rightarrow> scrapely \<Rightarrow> js_error option \<times> scrapely" where
  "emit e ev s =
     ((case ev of
         ErrorEv err \<Rightarrow> if has_error_listener e then on_event e ev else Some err
       | _ \<Rightarrow> on_event e ev),
      s\<lparr>trace := trace s @ [Emit ev]\<rparr>)"

definition sleep :: "rat \<Rightarrow> scrapely \<Rightarrow> scrapely" where
  "sleep ms s = s\<lparr>clock := clock s + max ms 0, trace := trace s @ [Sleep ms]\<rparr>"

definition rateGate :: "opts \<Rightarrow> scrapely \<Rightarrow> scrapely" where
  "rateGate o' s =
     (case rateLimit o' of
        None \<Rightarrow> s
      | Some r \<Rightarrow>
          if r = 0 then s
          else
            let minGap = 1000 / r;
                elapsed = clock s - lastRequestAt s;
                s1 = (if elapsed < minGap then sleep (minGap - elapsed) s else s)
            in s1\<lparr>lastRequestAt := clock s1\<rparr>)"

definition nextUA :: "scrapely \<Rightarrow> scrapely" where
  "nextUA s =
     (let i = (uaIndex s + 1) mod length UA_POOL
      in s\<lparr>uaIndex := i, userAgent := UA_POOL ! i\<rparr>)"

section \<open>The response cache\<close>

definition cacheGet :: "cache_policy \<Rightarrow> string \<Rightarrow> scrapely \<Rightarrow> string option \<times> scrapely" where
  "cacheGet pol key s =
     (case map_of (cache_store s) key of
        None \<Rightarrow> (None, s)
      | Some entry \<Rightarrow>
          if clock s - ts entry > ttl pol
          then (None, s\<lparr>cache_store := AList.delete key (cache_store s)\<rparr>)
          else (Some (data entry), s))"

definition cachePut :: "cache_policy \<Rightarrow> string \<Rightarrow> string \<Rightarrow> scrapely \<Rightarrow> scrapely" where
  "cachePut pol key d s =
     (let c = cache_store s;
          c1 = (if int (length c) \<ge> maxSize pol
                then (case c of [] \<Rightarrow> c | (oldest, v) # rest \<Rightarrow> AList.delete oldest c)
                else c)
      in s\<lparr>cache_store := AList.update key \<lparr>data = d, ts = clock s\<rparr> c1\<rparr>)"

definition clearCache :: "opts \<Rightarrow> scrapely \<Rightarrow> scrapely" where
  "clearCache o' s = (if cache o' \<noteq> None then s\<lparr>cache_store := []\<rparr> else s)"

definition cacheSize :: "opts \<Rightarrow> scrapely \<Rightarrow> nat" where
  "cacheSize o' s = (if cache o' \<noteq> None then length (cache_store s) else 0)"

text \<open>
  A sequence of cache operations at arbitrary times: a put and a get as \<open>fetch\<close> makes
  them (only when the cache is on), \<open>clearCache()\<close>, and the clock advancing between two
  operations.
\<close>

datatype cache_op = Put string string | Get string | Clear | Tick nat

fun cache_step :: "opts \<Rightarrow> cache_op \<Rightarrow> scrapely \<Rightarrow> scrapely" where
  "cache_step o' (Put k d) s =
     (case cache o' of Some pol \<Rightarrow> cachePut pol k d s | None \<Rightarrow> s)"
| "cache_step o' (Get k) s =
     (case cache o' of Some pol \<Rightarrow> snd (cacheGet pol k s) | None \<Rightarrow> s)"
| "cache_step o' Clear s = clearCache o' s"
| "cache_step o' (Tick n) s = s\<lparr>clock := clock s + of_nat n\<rparr>"

fun cache_run :: "opts \<Rightarrow> cache_op list \<Rightarrow> scrapely \<Rightarrow> scrapely" where
  "cache_run o' [] s = s"
| "cache_run o' (x # xs) s = cache_run o' xs (cache_step o' x s)"

section \<open>fetch\<close>

text \<open>\<open>typeof res.data === 'string' ? res.data : String(res.data)\<close>\<close>

definition coerce_body :: "jsval \<Rightarrow> string" where
  "coerce_body v = (if typeof v = ''string'' then the_string v else js_String v)"

text \<open>
  The body of the \<open>try\<close> block of one attempt: \<open>Inr body\<close> when it returns, \<open>Inl err\<close>
  when it throws \<open>err\<close> into the \<open>catch\<close>.
\<close>

definition try_attempt :: "opts \<Rightarrow> env \<Rightarrow> string \<Rightarrow> scrapely \<Rightarrow> (js_error + string) \<times> scrapely" where
  "try_attempt o' e url s =
     (case emit e (Request url) s of
        (Some x, s1) \<Rightarrow> (Inl x, s1)
      | (None, s1) \<Rightarrow>
          (case http_get e (calls s1) url of
             (took, outcome) \<Rightarrow>
               let s2 = s1\<lparr>clock := clock s1 + took, calls := calls s1 + 1,
                           trace := trace s1 @ [HttpGet url]\<rparr>
               in (case outcome of
                     Inl err \<Rightarrow> (Inl err, s2)
                   | Inr res \<Rightarrow>
                       (case emit e (Response url (status res)) s2 of
                          (Some x, s3) \<Rightarrow> (Inl x, s3)
                        | (None, s3) \<Rightarrow>
                            let body = coerce_body (res_data res)
                            in (Inr body,
                                (case cache o' of
                                   Some pol \<Rightarrow> cachePut pol url body s3
                                 | None \<Rightarrow> s3))))))"

text \<open>
  The retry loop from attempt \<open>attempt\<close> on, with \<open>lastErr\<close> (\<open>None\<close> is \<open>undefined\<close>),
  and what follows the loop: \<open>new FetchError(url, maxRetries, lastErr)\<close> reads
  \<open>cause.message\<close>, a \<open>TypeError\<close> when no attempt was made.
\<close>

function fetch_loop ::
  "opts \<Rightarrow> env \<Rightarrow> string \<Rightarrow> int \<Rightarrow> js_error option \<Rightarrow> scrapely \<Rightarrow> (js_error + string) \<times> scrapely"
where
  "fetch_loop o' e url attempt lastErr s =
     (if attempt \<le> maxRetries o' then
        (case try_attempt o' e url s of
           (Inr body, s1) \<Rightarrow> (Inr body, s1)
         | (Inl err, s1) \<Rightarrow>
             (case emit e (Retry url attempt err) s1 of
                (Some x, s2) \<Rightarrow> (Inl x, s2)
              | (None, s2) \<Rightarrow>
                  fetch_loop o' e url (attempt + 1) (Some err)
                    (if attempt < maxRetries o'
                     then sleep (retryDelay o' * of_int attempt) s2 else s2)))
      else
        (case lastErr of
           None \<Rightarrow> (Inl (TypeError ''Cannot read properties of undefined''), s)
         | Some c \<Rightarrow>
             let fetchErr = FetchError url (maxRetries o') c
             in (case emit e (ErrorEv fetchErr) s of
                   (Some x, s1) \<Rightarrow> (Inl x, s1)
                 | (None, s1) \<Rightarrow> (Inl fetchErr, s1))))"
  by pat_completeness auto
termination
  by (relation "measure (\<lambda>(o', e, url, attempt, lastErr, s). nat (maxRetries o' + 1 - attempt))") auto

declare fetch_loop.simps [simp del]

definition fetch :: "opts \<Rightarrow> env \<Rightarrow> jsval \<Rightarrow> scrapely \<Rightarrow> (js_error + string) \<times> scrapely" where
  "fetch o' e url s =
     (case assert_js url ExpString ''url'' of
        Some err \<Rightarrow> (Inl err, s)
      | None \<Rightarrow>
          let u = the_string url;
              s1 = rateGate o' s;
              s2 = (if rotateUserAgent o' then nextUA s1 else s1)
          in (case cache o' of
                None \<Rightarrow> fetch_loop o' e u 1 None s2
              | Some pol \<Rightarrow>
                  (case cacheGet pol u s2 of
                     (Some cached, s3) \<Rightarrow>
                       (case emit e (CacheHit u) s3 of
                          (Some x, s4) \<Rightarrow> (Inl x, s4)
                        | (None, s4) \<Rightarrow> (Inr cached, s4))
                   | (None, s3) \<Rightarrow> fetch_loop o' e u 1 None s3)))"

text \<open>
  Notions the statements about \<open>fetch\<close> use. Listeners are quiet when none of them
  throws. \<open>actions_since s s'\<close> is the log between two states of one run,
  \<open>events_since s s'\<close> the events emitted in it, \<open>sleeps\<close> the durations slept.
  \<open>failed_attempts o url n errs\<close> is the log of consecutive attempts \<open>n, n + 1, ...\<close>
  that fail with \<open>errs\<close>: per attempt the \<open>request\<close> event, the transport call, the
  \<open>retry\<close> event and, when attempts remain, the back-off sleep.
\<close>

definition quiet :: "env \<Rightarrow> bool" where
  "quiet e = (\<forall>ev. on_event e ev = None)"

fun emitted :: "action list \<Rightarrow> event list" where
  "emitted [] = []"
| "emitted (Emit ev # acts) = ev # emitted acts"
| "emitted (a # acts) = emitted acts"

fun sleeps :: "action list \<Rightarrow> rat list" where
  "sleeps [] = []"
| "sleeps (Sleep ms # acts) = ms # sleeps acts"
| "sleeps (a # acts) = sleeps acts"

definition actions_since :: "scrapely \<Rightarrow> scrapely \<Rightarrow> action list" where
  "actions_since s s' = drop (length (trace s)) (trace s')"

definition events_since :: "scrapely \<Rightarrow> scrapely \<Rightarrow> event list" where
  "events_since s s' = emitted (actions_since s s')"

fun is_request :: "event \<Rightarrow> bool" where
  "is_request (Request u) = True"
| "is_request ev = False"

fun is_retry :: "event \<Rightarrow> bool" where
  "is_retry (Retry u n err) = True"
| "is_retry ev = False"

fun failed_attempts :: "opts \<Rightarrow> string \<Rightarrow> int \<Rightarrow> js_error list \<Rightarrow> action list" where
  "failed_attempts o' url attempt [] = []"
| "failed_attempts o' url attempt (err # errs) =
     [Emit (Request url), HttpGet url, Emit (Retry url attempt err)]
     @ (if attempt < maxRetries o' then [Sleep (retryDelay o' * of_int attempt)] else [])
     @ failed_attempts o' url (attempt + 1) errs"

text \<open>The transport fails the next \<open>length errs\<close> calls for \<open>url\<close>, with \<open>errs\<close>.\<close>

definition fails_with :: "env \<Rightarrow> string \<Rightarrow> nat \<Rightarrow> js_error list \<Rightarrow> bool" where
  "fails_with e url n errs =
     (\<forall>i < length errs. snd (http_get e (n + i) url) = Inl (errs ! i))"

text \<open>The invariant of the cache: distinct keys, at most \<open>maxSize\<close> entries.\<close>

definition cache_inv :: "cache_policy \<Rightarrow> scrapely \<Rightarrow> bool" where
  "cache_inv pol s =
     (distinct (map fst (cache_store s)) \<and> int (length (cache_store s)) \<le> maxSize pol)"

section \<open>Documents and URLs\<close>

text \<open>
  The collaborators behind \<open>load\<close>: \<open>cheerio.load(html)\<close>, a selection \<open>$(selector)\<close>
  in document order, \<open>$(node).find(selector)\<close>, and \<open>.text()\<close>, \<open>.html()\<close> and
  \<open>.attr(name)\<close> of a selection (a list of nodes; \<open>.first()\<close> is \<open>take 1\<close>).
  \<open>url_href rel base\<close> is \<open>new URL(rel, base).href\<close>, \<open>None\<close> when the constructor
  throws. Callbacks of the caller (\<open>transform\<close>, \<open>dataExtractor\<close>, \<open>stopWhen\<close>) are total
  functions: a callback that throws is outside the model.
\<close>

record ('doc, 'el) dom =
  cheerio_load :: "string \<Rightarrow> 'doc"
  select :: "'doc \<Rightarrow> string \<Rightarrow> 'el list"
  find_in :: "'doc \<Rightarrow> 'el \<Rightarrow> string \<Rightarrow> 'el list"
  el_text :: "'doc \<Rightarrow> 'el list \<Rightarrow> string"
  el_html :: "'doc \<Rightarrow> 'el list \<Rightarrow> jsval"
  el_attr :: "'doc \<Rightarrow> 'el list \<Rightarrow> string option \<Rightarrow> jsval"
  url_href :: "string \<Rightarrow> string \<Rightarrow> string option"

definition load ::
  "opts \<Rightarrow> env \<Rightarrow> ('doc, 'el) dom \<Rightarrow> jsval \<Rightarrow> scrapely \<Rightarrow> (js_error + 'doc) \<times> scrapely"
where
  "load o' e d url s =
     (case fetch o' e url s of
        (Inl err, s1) \<Rightarrow> (Inl err, s1)
      | (Inr html, s1) \<Rightarrow> (Inr (cheerio_load d html), s1))"

definition resolveUrl :: "('doc, 'el) dom \<Rightarrow> string \<Rightarrow> string \<Rightarrow> string" where
  "resolveUrl d base rel = (case url_href d rel base of Some h \<Rightarrow> h | None \<Rightarrow> rel)"

text \<open>\<open>String.prototype.trim\<close> on the ASCII white space (a \<open>char\<close> is a byte).\<close>

definition is_space :: "char \<Rightarrow> bool" where
  "is_space c = (c \<in> set [CHR '' '', CHR 0x09, CHR 0x0A, CHR 0x0B, CHR 0x0C, CHR 0x0D])"

definition trim :: "string \<Rightarrow> string" where
  "trim s = rev (dropWhile is_space (rev (dropWhile is_space s)))"

section \<open>extractList\<close>

text \<open>
  A field definition of a schema: \<open>type\<close> (here \<open>ftype\<close>) and \<open>attribute\<close> may be
  absent, \<open>multiple\<close> is the flag \<open>extract\<close> reads. A schema is \<open>Object.entries\<close> of the
  schema object, and a record is built by the assignments \<open>item[key] = ...\<close>.
\<close>

record ('doc, 'el) field_def =
  selector :: string
  ftype :: "string option"
  attribute :: "string option"
  multiple :: bool
  transform :: "(jsval \<Rightarrow> 'doc \<Rightarrow> 'el list \<Rightarrow> jsval) option"

definition readValue ::
  "('doc, 'el) dom \<Rightarrow> 'doc \<Rightarrow> 'el list \<Rightarrow> string \<Rightarrow> string option \<Rightarrow> jsval"
where
  "readValue d doc el type attr =
     (if type = ''html'' then el_html d doc el
      else if type = ''attribute'' then el_attr d doc el attr
      else JStr (trim (el_text d doc el)))"

definition field_value ::
  "('doc, 'el) dom \<Rightarrow> 'doc \<Rightarrow> 'el \<Rightarrow> ('doc, 'el) field_def \<Rightarrow> jsval"
where
  "field_value d doc container def =
     (let type = (case ftype def of None \<Rightarrow> ''text'' | Some t \<Rightarrow> t);
          el = take 1 (find_in d doc container (selector def));
          raw = readValue d doc el type (attribute def)
      in (case transform def of Some f \<Rightarrow> f raw doc el | None \<Rightarrow> raw))"

definition extract_item ::
  "('doc, 'el) dom \<Rightarrow> 'doc \<Rightarrow> (string \<times> ('doc, 'el) field_def) list \<Rightarrow> 'el
     \<Rightarrow> (string \<times> jsval) list"
where
  "extract_item d doc itemSchema container =
     foldl (\<lambda>item (key, def). AList.update key (field_value d doc container def) item)
       [] itemSchema"

text \<open>
  \<open>itemSchema = None\<close> stands for an argument that is not a non-null object, which
  \<open>_assert(itemSchema, 'object', 'itemSchema')\<close> refuses.
\<close>

definition extractList ::
  "opts \<Rightarrow> env \<Rightarrow> ('doc, 'el) dom \<Rightarrow> jsval \<Rightarrow> jsval
     \<Rightarrow> (string \<times> ('doc, 'el) field_def) list option \<Rightarrow> scrapely
     \<Rightarrow> (js_error + (string \<times> jsval) list list) \<times> scrapely"
where
  "extractList o' e d url containerSelector itemSchema s =
     (case assert_js containerSelector ExpString ''containerSelector'' of
        Some err \<Rightarrow> (Inl err, s)
      | None \<Rightarrow>
          (case itemSchema of
             None \<Rightarrow> (Inl (ValidationError ''itemSchema'' ''must be a non-null object''), s)
           | Some schema \<Rightarrow>
               (case load o' e d url s of
                  (Inl err, s1) \<Rightarrow> (Inl err, s1)
                | (Inr doc, s1) \<Rightarrow>
                    (Inr (map (extract_item d doc schema)
                            (select d doc (the_string containerSelector))), s1))))"

section \<open>paginate\<close>

text \<open>What a \<open>dataExtractor\<close> returns: an array, \<open>null\<close>/\<open>undefined\<close>, or one item.\<close>

datatype 'a extracted = Items "'a list" | Nullish | Single 'a

fun push_data :: "'a list \<Rightarrow> 'a extracted \<Rightarrow> 'a list" where
  "push_data collected (Items xs) = collected @ xs"
| "push_data collected Nullish = collected"
| "push_data collected (Single x) = collected @ [x]"

record ('doc, 'a) paginate_opts =
  nextSelector :: "string option"
  maxPages :: "int option"
  dataExtractor :: "('doc \<Rightarrow> string \<Rightarrow> int \<Rightarrow> 'a extracted) option"
  stopWhen :: "('doc \<Rightarrow> 'a list \<Rightarrow> int \<Rightarrow> bool) option"
  ignoreErrors :: bool

definition DEFAULT_NEXT_SELECTOR :: string where
  "DEFAULT_NEXT_SELECTOR =
     ''.next, .pagination__next, a[rel='' @ [CHR 0x22] @ ''next'' @ [CHR 0x22] @ '']''"

text \<open>
  \<open>$(nextSel).first().attr('href')\<close>, resolved against the current URL when it is
  truthy; \<open>None\<close> is \<open>null\<close>.
\<close>

definition nextUrl :: "('doc, 'el) dom \<Rightarrow> 'doc \<Rightarrow> string \<Rightarrow> string \<Rightarrow> string option" where
  "nextUrl d doc nextSel currentUrl =
     (let nextHref = el_attr d doc (take 1 (select d doc nextSel)) (Some ''href'')
      in if truthy nextHref then Some (resolveUrl d currentUrl (js_String nextHref)) else None)"

text \<open>
  The loop \<open>for (page; page <= maxPages && currentUrl; page++)\<close>: a \<open>currentUrl\<close> that is
  \<open>null\<close> or the empty string ends it.
\<close>

function paginate_loop ::
  "opts \<Rightarrow> env \<Rightarrow> ('doc, 'el) dom \<Rightarrow> ('doc, 'a) paginate_opts \<Rightarrow> string \<Rightarrow> int \<Rightarrow> int
     \<Rightarrow> string option \<Rightarrow> 'a list \<Rightarrow> scrapely \<Rightarrow> (js_error + 'a list) \<times> scrapely"
where
  "paginate_loop o' e d po nextSel maxP page currentUrl collected s =
     (case currentUrl of
        None \<Rightarrow> (Inr collected, s)
      | Some u \<Rightarrow>
          if page \<le> maxP \<and> u \<noteq> [] then
            (case load o' e d (JStr u) s of
               (Inl err, s1) \<Rightarrow>
                 if ignoreErrors po then (Inr collected, s1) else (Inl err, s1)
             | (Inr doc, s1) \<Rightarrow>
                 let collected1 =
                       (case dataExtractor po of
                          Some extract \<Rightarrow> push_data collected (extract doc u page)
                        | None \<Rightarrow> collected)
                 in if (case stopWhen po of
                          Some stop \<Rightarrow> stop doc collected1 page
                        | None \<Rightarrow> False)
                    then (Inr collected1, s1)
                    else paginate_loop o' e d po nextSel maxP (page + 1)
                           (nextUrl d doc nextSel u) collected1 s1)
          else (Inr collected, s))"
  by pat_completeness auto
termination
  by (relation "measure (\<lambda>(o', e, d, po, nextSel, maxP, page, currentUrl, collected, s).
        nat (maxP + 1 - page))") auto

declare paginate_loop.simps [simp del]

definition paginate ::
  "opts \<Rightarrow> env \<Rightarrow> ('doc, 'el) dom \<Rightarrow> jsval \<Rightarrow> ('doc, 'a) paginate_opts \<Rightarrow> scrapely
     \<Rightarrow> (js_error + 'a list) \<times> scrapely"
where
  "paginate o' e d startUrl po s =
     (case assert_js startUrl ExpString ''startUrl'' of
        Some err \<Rightarrow> (Inl err, s)
      | None \<Rightarrow>
          let nextSel = (case nextSelector po of
                           Some sel \<Rightarrow> if sel \<noteq> [] then sel else DEFAULT_NEXT_SELECTOR
                         | None \<Rightarrow> DEFAULT_NEXT_SELECTOR);
              maxP = (case maxPages po of
                        Some n \<Rightarrow> if n \<noteq> 0 then n else DEFAULT_MAX_PAGES
                      | None \<Rightarrow> DEFAULT_MAX_PAGES)
          in paginate_loop o' e d po nextSel maxP 1 (Some (the_string startUrl)) [] s)"

section \<open>scrapeMultiple\<close>

text \<open>
  Inside a window the items run concurrently on the shared instance; what
  \<open>Promise.allSettled\<close> hands back is, in the order of the window, the outcome of each
  item's \<open>async (url) => { const $ = await this.load(url); return handler($, url); }\<close>:
  \<open>Inr value\<close> when fulfilled, \<open>Inl reason\<close> when rejected. \<open>task i url\<close> is that
  outcome for the item at index \<open>i\<close> of \<open>urls\<close>. \<open>concurrency\<close> is a count (absent, or
  a natural number). The second component of a result lists the items started, in order.
\<close>

record batch_opts =
  concurrency :: "nat option"
  batch_ignoreErrors :: bool

text \<open>The \<open>for (const outcome of settled)\<close> loop; \<open>Inl\<close> is the \<open>throw\<close>.\<close>

fun collect_settled :: "bool \<Rightarrow> (js_error + 'r) list \<Rightarrow> 'r list \<Rightarrow> js_error + 'r list" where
  "collect_settled ign [] results = Inr results"
| "collect_settled ign (Inr v # rest) results = collect_settled ign rest (results @ [v])"
| "collect_settled ign (Inl reason # rest) results =
     (if \<not> ign then Inl reason else collect_settled ign rest results)"

text \<open>
  The loop \<open>for (i; i < urls.length; i += concurrency)\<close>. With \<open>concurrency = 0\<close> the
  index would never advance: \<open>None\<close> is a call that does not return.
\<close>

function scrape_loop ::
  "(nat \<Rightarrow> string \<Rightarrow> js_error + 'r) \<Rightarrow> bool \<Rightarrow> nat \<Rightarrow> string list \<Rightarrow> nat \<Rightarrow> 'r list
     \<Rightarrow> string list \<Rightarrow> ((js_error + 'r list) \<times> string list) option"
where
  "scrape_loop task ign c urls i results started =
     (if i < length urls then
        (if c = 0 then None
         else
           let batch = take c (drop i urls);
               settled = map (\<lambda>(j, url). task j url) (zip [i ..< i + length batch] batch)
           in (case collect_settled ign settled results of
                 Inl reason \<Rightarrow> Some (Inl reason, started @ batch)
               | Inr results1 \<Rightarrow>
                   scrape_loop task ign c urls (i + c) results1 (started @ batch)))
      else Some (Inr results, started))"
  by pat_completeness auto
termination
  by (relation "measure (\<lambda>(task, ign, c, urls, i, results, started). length urls - i)") auto

declare scrape_loop.simps [simp del]

text \<open>\<open>urls = None\<close> stands for an argument that is not an array.\<close>

definition scrapeMultiple ::
  "(nat \<Rightarrow> string \<Rightarrow> js_error + 'r) \<Rightarrow> string list option \<Rightarrow> batch_opts
     \<Rightarrow> ((js_error + 'r list) \<times> string list) option"
where
  "scrapeMultiple task urls bo =
     (case urls of
        None \<Rightarrow> Some (Inl (ValidationError ''urls'' ''must be an array''), [])
      | Some us \<Rightarrow>
          let c = (case concurrency bo of
                     Some n \<Rightarrow> if n \<noteq> 0 then n else DEFAULT_CONCURRENCY
                   | None \<Rightarrow> DEFAULT_CONCURRENCY)
          in scrape_loop task (batch_ignoreErrors bo) c us 0 [] [])"

section \<open>Concrete collaborators for example runs\<close>

text \<open>
  An instance right after \<open>new Scrapely(...)\<close> at clock \<open>t\<close>, the options of an instance
  built with \<open>{maxRetries: 3, retryDelay: 1000}\<close>, and a transport that fails its first
  \<open>k\<close> calls and then answers \<open>200\<close> with a body made from the URL; no listeners.
\<close>

definition new_scrapely :: "rat \<Rightarrow> scrapely" where
  "new_scrapely t =
     \<lparr>lastRequestAt = 0, uaIndex = 0, userAgent = UA_POOL ! 0, cache_store = [],
      clock = t, calls = 0, trace = []\<rparr>"

definition test_opts :: opts where
  "test_opts =
     \<lparr>maxRetries = 3, retryDelay = 1000, rateLimit = None, rotateUserAgent = False,
      cache = None\<rparr>"

definition flaky :: "nat \<Rightarrow> env" where
  "flaky k =
     \<lparr>http_get = (\<lambda>n url. (20, if n < k then Inl (Thrown ''ECONNRESET'')
                               else Inr \<lparr>status = 200, res_data = JStr (''body of '' @ url)\<rparr>)),
      on_event = (\<lambda>ev. None),
      has_error_listener = False\<rparr>"

text \<open>The same transport with a \<open>retry\<close> listener that throws.\<close>

definition retry_listener_throws :: "nat \<Rightarrow> env" where
  "retry_listener_throws k =
     (flaky k)\<lparr>on_event := (\<lambda>ev. if is_retry ev then Some (Thrown ''listener'') else None)\<rparr>"

text \<open>The same transport with a \<open>request\<close> listener that throws.\<close>

definition request_listener_throws :: "nat \<Rightarrow> env" where
  "request_listener_throws k =
     (flaky k)\<lparr>on_event := (\<lambda>ev. if is_request ev then Some (Thrown ''listener'') else None)\<rparr>"

text \<open>A cache policy of two entries that live one second, and a store that is full.\<close>

definition small_cache :: cache_policy where
  "small_cache = \<lparr>ttl = 1000, maxSize = 2\<rparr>"

definition full_store :: scrapely where
  "full_store =
     (new_scrapely 5000)\<lparr>cache_store :=
        [(''a'', \<lparr>data = ''A'', ts = 3000\<rparr>), (''b'', \<lparr>data = ''B'', ts = 4500\<rparr>)]\<rparr>"

text \<open>
  A site of three pages \<open>p1\<close>, \<open>p2\<close>, \<open>p3\<close>: a document is the body the transport
  returned, an element is the \<open>href\<close> it carries, the next-link selector finds the link
  from \<open>p1\<close> to \<open>p2\<close> and from \<open>p2\<close> to \<open>p3\<close> and nothing on \<open>p3\<close>. The extractor
  yields two items on \<open>p1\<close>, one on \<open>p2\<close>, two on \<open>p3\<close>.
\<close>

definition chain_dom :: "(string, string) dom" where
  "chain_dom =
     \<lparr>cheerio_load = (\<lambda>html. html),
      select = (\<lambda>doc sel.
         if sel = DEFAULT_NEXT_SELECTOR
         then (if doc = ''body of p1'' then [''p2'']
               else if doc = ''body of p2'' then [''p3''] else [])
         else []),
      find_in = (\<lambda>doc el sel. []),
      el_text = (\<lambda>doc els. concat els),
      el_html = (\<lambda>doc els. JNull),
      el_attr = (\<lambda>doc els name.
         case els of [] \<Rightarrow> JUndefined
         | h # rest \<Rightarrow> if name = Some ''href'' then JStr h else JUndefined),
      url_href = (\<lambda>rel base. Some rel)\<rparr>"

definition chain_items :: "string \<Rightarrow> string \<Rightarrow> int \<Rightarrow> string extracted" where
  "chain_items doc url page =
     (if doc = ''body of p1'' then Items [''a1'', ''a2'']
      else if doc = ''body of p2'' then Items [''b1'']
      else Items [''c1'', ''c2''])"

definition chain_opts :: "(string, string) paginate_opts" where
  "chain_opts =
     \<lparr>nextSelector = None, maxPages = None, dataExtractor = Some chain_items,
      stopWhen = None, ignoreErrors = False\<rparr>"

text \<open>A site on which every page links to \<open>p1\<close>, so the chain of next links never ends.\<close>

definition endless_dom :: "(string, string) dom" where
  "endless_dom = chain_dom\<lparr>select := (\<lambda>doc sel. [''p1''])\<rparr>"

text \<open>The URLs of the pages a run has requested, in order.\<close>

fun visited :: "action list \<Rightarrow> string list" where
  "visited [] = []"
| "visited (HttpGet u # acts) = u # visited acts"
| "visited (a # acts) = visited acts"

text \<open>
  A page with two containers: the first holds two elements for \<open>.tag\<close>, the second
  none. The text of a selection is the text of its elements with white space around it.
\<close>

definition list_dom :: "(string, string) dom" where
  "list_dom =
     chain_dom\<lparr>select := (\<lambda>doc sel. if sel = ''.item'' then [''i1'', ''i2''] else []),
               find_in := (\<lambda>doc el sel.
                  if el = ''i1'' \<and> sel = ''.tag'' then [''first'', ''second''] else []),
               el_text := (\<lambda>doc els. '' '' @ concat els @ '' '')\<rparr>"

definition tag_schema :: "(string \<times> (string, string) field_def) list" where
  "tag_schema =
     [(''tag'', \<lparr>selector = ''.tag'', ftype = None, attribute = None, multiple = True,
                 transform = None\<rparr>)]"

text \<open>Five items of which the third (index 2) is rejected.\<close>

definition five_urls :: "string list" where
  "five_urls = [''u1'', ''u2'', ''u3'', ''u4'', ''u5'']"

definition third_fails :: "nat \<Rightarrow> string \<Rightarrow> js_error + string" where
  "third_fails i url = (if i = 2 then Inl (Thrown ''boom'') else Inr (''ok '' @ url))"

text \<open>
  Notions the statements about \<open>scrapeMultiple\<close> use: the outcomes of the items from
  index \<open>i\<close> on, the values of the fulfilled ones, and the position and reason of the
  first rejected one.
\<close>

fun settle_from :: "(nat \<Rightarrow> string \<Rightarrow> js_error + 'r) \<Rightarrow> nat \<Rightarrow> string list \<Rightarrow> (js_error + 'r) list" where
  "settle_from task i [] = []"
| "settle_from task i (u # us) = task i u # settle_from task (Suc i) us"

fun fulfilled :: "(js_error + 'r) list \<Rightarrow> 'r list" where
  "fulfilled [] = []"
| "fulfilled (Inr v # rest) = v # fulfilled rest"
| "fulfilled (Inl err # rest) = fulfilled rest"

fun first_rejected :: "(js_error + 'r) list \<Rightarrow> (nat \<times> js_error) option" where
  "first_rejected [] = None"
| "first_rejected (Inl err # rest) = Some (0, err)"
| "first_rejected (Inr v # rest) = map_option (\<lambda>(k, err). (Suc k, err)) (first_rejected rest)"

section \<open>Properties of the cache\<close>

lemma length_update_le: "length (AList.update k v al) \<le> Suc (length al)"
  by (induction al) auto

lemma cachePut_store_full:
  assumes "distinct (map fst (cache_store s))" "int (length (cache_store s)) \<ge> maxSize pol"
  shows "cache_store (cachePut pol key d s) =
     AList.update key \<lparr>data = d, ts = clock s\<rparr> (tl (cache_store s))"
  using assms by (cases "cache_store s") (auto simp: cachePut_def Let_def)

lemma cachePut_store_room:
  "int (length (cache_store s)) < maxSize pol \<Longrightarrow>
   cache_store (cachePut pol key d s) =
     AList.update key \<lparr>data = d, ts = clock s\<rparr> (cache_store s)"
  by (auto simp: cachePut_def Let_def)

lemma cachePut_inv:
  assumes "1 \<le> maxSize pol" "cache_inv pol s"
  shows "cache_inv pol (cachePut pol key d s)"
proof (cases "int (length (cache_store s)) < maxSize pol")
  case True
  have "length (AList.update key \<lparr>data = d, ts = clock s\<rparr> (cache_store s))
      \<le> Suc (length (cache_store s))"
    by (rule length_update_le)
  with True assms show ?thesis
    by (simp add: cache_inv_def cachePut_store_room distinct_update)
next
  case False
  with assms have full: "int (length (cache_store s)) = maxSize pol"
    and dist: "distinct (map fst (cache_store s))"
    by (auto simp: cache_inv_def)
  then obtain p rest where c: "cache_store s = p # rest"
    using assms(1) by (cases "cache_store s") auto
  have "length (AList.update key \<lparr>data = d, ts = clock s\<rparr> rest) \<le> Suc (length rest)"
    by (rule length_update_le)
  moreover have "distinct (map fst rest)" using dist c by simp
  ultimately show ?thesis using full dist c
    by (simp add: cache_inv_def cachePut_store_full distinct_update)
qed

lemma cacheGet_inv: "cache_inv pol s \<Longrightarrow> cache_inv pol (snd (cacheGet pol key s))"
proof -
  assume a: "cache_inv pol s"
  have "length (AList.delete key (cache_store s)) \<le> length (cache_store s)"
    by (rule length_delete_le)
  with a show ?thesis
    by (auto simp: cache_inv_def cacheGet_def distinct_delete split: option.splits)
qed

lemma cache_step_inv:
  "cache o' = Some pol \<Longrightarrow> 1 \<le> maxSize pol \<Longrightarrow> cache_inv pol s \<Longrightarrow>
   cache_inv pol (cache_step o' x s)"
  by (cases x) (auto simp: cachePut_inv cacheGet_inv clearCache_def, auto simp: cache_inv_def)

lemma cache_run_inv:
  "cache o' = Some pol \<Longrightarrow> 1 \<le> maxSize pol \<Longrightarrow> cache_inv pol s \<Longrightarrow>
   cache_inv pol (cache_run o' xs s)"
  by (induction xs arbitrary: s) (auto simp: cache_step_inv)

text \<open>
  Claim C2. For every cache policy and every key, \<open>_cacheGet\<close> returns the stored value
  exactly when an entry for the key exists and \<open>now - entry.ts \<le> ttl\<close>. When an entry
  exists and \<open>now - entry.ts > ttl\<close>, the get is a miss and removes that entry (and only
  that entry) from the store; a hit and a miss on an absent key leave the instance as it
  was.
\<close>

theorem cacheGet_hit_iff_fresh:
  "(fst (cacheGet pol key s) = Some v \<longleftrightarrow>
      (\<exists>entry. map_of (cache_store s) key = Some entry \<and> data entry = v
         \<and> clock s - ts entry \<le> ttl pol))
   \<and> (\<forall>entry. map_of (cache_store s) key = Some entry \<and> clock s - ts entry > ttl pol \<longrightarrow>
        fst (cacheGet pol key s) = None
        \<and> cache_store (snd (cacheGet pol key s)) = AList.delete key (cache_store s)
        \<and> map_of (cache_store (snd (cacheGet pol key s))) = (map_of (cache_store s))(key := None))
   \<and> (\<forall>entry. map_of (cache_store s) key = Some entry \<and> clock s - ts entry \<le> ttl pol \<longrightarrow>
        snd (cacheGet pol key s) = s)
   \<and> (map_of (cache_store s) key = None \<longrightarrow> cacheGet pol key s = (None, s))"
  by (auto simp: cacheGet_def delete_conv' split: option.splits)

text \<open>
  At clock 5000 with \<open>ttl = 1000\<close>: the entry of \<open>a\<close> (written at 3000) has expired and
  is evicted by the read, the entry of \<open>b\<close> (written at 4500) is a hit, \<open>c\<close> is absent.
\<close>

theorem cacheGet_hit_iff_fresh_witness:
  "map_of (cache_store full_store) ''a'' = Some \<lparr>data = ''A'', ts = 3000\<rparr>
   \<and> clock full_store - 3000 > ttl small_cache
   \<and> fst (cacheGet small_cache ''a'' full_store) = None
   \<and> cache_store (snd (cacheGet small_cache ''a'' full_store)) =
        [(''b'', \<lparr>data = ''B'', ts = 4500\<rparr>)]
   \<and> map_of (cache_store full_store) ''b'' = Some \<lparr>data = ''B'', ts = 4500\<rparr>
   \<and> clock full_store - 4500 \<le> ttl small_cache
   \<and> cacheGet small_cache ''b'' full_store = (Some ''B'', full_store)
   \<and> cacheGet small_cache ''c'' full_store = (None, full_store)"
  using cacheGet_hit_iff_fresh [of small_cache "''a''" full_store "''A''"]
    cacheGet_hit_iff_fresh [of small_cache "''b''" full_store "''B''"]
    cacheGet_hit_iff_fresh [of small_cache "''c''" full_store "''C''"]
  by (simp add: full_store_def small_cache_def new_scrapely_def prod_eq_iff)

text \<open>
  Claim C3, as stated, fails twice. A put of a key that is already present, into a store
  at capacity, evicts the oldest entry all the same: with \<open>maxSize = 2\<close> and the store
  \<open>[a, b]\<close>, putting \<open>b\<close> again removes \<open>a\<close> and leaves one entry. And with
  \<open>maxSize = 0\<close> a put into the empty store leaves one entry, more than \<open>maxSize\<close>.
\<close>

theorem cachePut_overwrite_evicts_counterexample:
  "map_of (cache_store full_store) ''b'' \<noteq> None
   \<and> map_of (cache_store full_store) ''a'' \<noteq> None
   \<and> map_of (cache_store (cachePut small_cache ''b'' ''B2'' full_store)) ''a'' = None
   \<and> cache_store (cachePut small_cache ''b'' ''B2'' full_store) =
        [(''b'', \<lparr>data = ''B2'', ts = 5000\<rparr>)]
   \<and> int (length (cache_store (cachePut \<lparr>ttl = 1000, maxSize = 0\<rparr> ''a'' ''A'' (new_scrapely 0))))
       > maxSize \<lparr>ttl = 1000, maxSize = 0\<rparr>"
  by (simp add: full_store_def small_cache_def new_scrapely_def cachePut_def)

text \<open>
  Claim C3, amended. For every cache policy with \<open>maxSize \<ge> 1\<close>: the store of a new
  instance is within bounds, and a store with distinct keys and at most \<open>maxSize\<close>
  entries stays so under any sequence of put, get and clear operations at any times, so
  \<open>cacheSize\<close> never exceeds \<open>maxSize\<close>. A
  put into a store at capacity first evicts the earliest-inserted entry (the head of the
  insertion order), whether or not the key is present, and then inserts or overwrites;
  for a new key the result is the remaining entries followed by the new one. A put into
  a store below capacity inserts or overwrites in place and evicts nothing.
\<close>

theorem cache_bounded_and_eviction:
  assumes "cache o' = Some pol" and "1 \<le> maxSize pol" and "cache_inv pol s"
  shows "cache_inv pol (new_scrapely t)
    \<and> cache_inv pol (cache_run o' ops s)
    \<and> int (cacheSize o' (cache_run o' ops s)) \<le> maxSize pol
    \<and> (int (length (cache_store s)) = maxSize pol \<longrightarrow>
         cache_store (cachePut pol key d s) =
           AList.update key \<lparr>data = d, ts = clock s\<rparr> (tl (cache_store s)))
    \<and> (int (length (cache_store s)) = maxSize pol \<and> key \<notin> fst ` set (cache_store s) \<longrightarrow>
         cache_store (cachePut pol key d s) =
           tl (cache_store s) @ [(key, \<lparr>data = d, ts = clock s\<rparr>)])
    \<and> (int (length (cache_store s)) < maxSize pol \<longrightarrow>
         cache_store (cachePut pol key d s) =
           AList.update key \<lparr>data = d, ts = clock s\<rparr> (cache_store s))"
proof -
  have inv: "cache_inv pol (cache_run o' ops s)"
    using assms by (rule cache_run_inv)
  have new_key: "AList.update key v al = al @ [(key, v)]"
    if "key \<notin> fst ` set al" for v and al :: js_map
    using that by (induction al) auto
  have tl_keys: "key \<notin> fst ` set (tl (cache_store s))"
    if "key \<notin> fst ` set (cache_store s)"
    using that by (cases "cache_store s") auto
  from assms(3) have dist: "distinct (map fst (cache_store s))"
    by (simp add: cache_inv_def)
  have fresh: "cache_inv pol (new_scrapely t)"
    using assms(2) by (simp add: cache_inv_def new_scrapely_def)
  show ?thesis
    using inv dist fresh assms(1)
    by (auto simp: cache_inv_def cacheSize_def cachePut_store_full cachePut_store_room
        new_key tl_keys)
qed

theorem cache_bounded_and_eviction_witness:
  "cache (test_opts\<lparr>cache := Some small_cache\<rparr>) = Some small_cache
   \<and> 1 \<le> maxSize small_cache \<and> cache_inv small_cache full_store
   \<and> int (cacheSize (test_opts\<lparr>cache := Some small_cache\<rparr>)
        (cache_run (test_opts\<lparr>cache := Some small_cache\<rparr>)
           [Put ''c'' ''C'', Tick 100, Get ''a'', Put ''d'' ''D'', Clear, Put ''e'' ''E'']
           full_store)) \<le> 2
   \<and> cache_store (cachePut small_cache ''c'' ''C'' full_store) =
        [(''b'', \<lparr>data = ''B'', ts = 4500\<rparr>), (''c'', \<lparr>data = ''C'', ts = 5000\<rparr>)]"
  using cache_bounded_and_eviction
    [of "test_opts\<lparr>cache := Some small_cache\<rparr>" small_cache full_store 0
        "[Put ''c'' ''C'', Tick 100, Get ''a'', Put ''d'' ''D'', Clear, Put ''e'' ''E'']"
        "''c''" "''C''"]
  by (simp add: full_store_def small_cache_def new_scrapely_def cache_inv_def)

section \<open>Properties of fetch\<close>

lemma rateGate_frame [simp]:
  "calls (rateGate o' s) = calls s" "cache_store (rateGate o' s) = cache_store s"
  by (auto simp: rateGate_def sleep_def Let_def split: option.splits)

lemma rateGate_trace: "\<exists>pre. trace (rateGate o' s) = trace s @ pre \<and> (\<forall>a \<in> set pre. \<exists>ms. a = Sleep ms)"
  by (auto simp: rateGate_def sleep_def Let_def split: option.splits)

lemma nextUA_frame [simp]:
  "calls (nextUA s) = calls s" "cache_store (nextUA s) = cache_store s" "trace (nextUA s) = trace s"
  "clock (nextUA s) = clock s"
  by (auto simp: nextUA_def Let_def)

lemma emit_quiet: "quiet e \<Longrightarrow> emit e ev s = (if (\<exists>err. ev = ErrorEv err) \<and> \<not> has_error_listener e then Some (case ev of ErrorEv err \<Rightarrow> err) else None, s\<lparr>trace := trace s @ [Emit ev]\<rparr>)"
  by (auto simp: emit_def quiet_def split: event.splits)

lemma try_attempt_fail:
  assumes "quiet e" "snd (http_get e (calls s) url) = Inl err"
  shows "try_attempt o' e url s =
    (Inl err, s\<lparr>clock := clock s + fst (http_get e (calls s) url), calls := calls s + 1,
        trace := trace s @ [Emit (Request url), HttpGet url]\<rparr>)"
  using assms by (cases "http_get e (calls s) url") (simp add: try_attempt_def emit_quiet)

lemma try_attempt_ok:
  assumes "quiet e" "snd (http_get e (calls s) url) = Inr res"
  shows "fst (try_attempt o' e url s) = Inr (coerce_body (res_data res))"
    and "trace (snd (try_attempt o' e url s)) = trace s @ [Emit (Request url), HttpGet url, Emit (Response url (status res))]"
    and "calls (snd (try_attempt o' e url s)) = calls s + 1"
  using assms by (cases "http_get e (calls s) url"; simp add: try_attempt_def emit_quiet Let_def cachePut_def split: option.splits)+

lemma fails_with_Cons:
  "fails_with e url n (err # errs) \<longleftrightarrow> snd (http_get e n url) = Inl err \<and> fails_with e url (Suc n) errs"
  unfolding fails_with_def
  by (auto simp: less_Suc_eq_0_disj)

lemma fetch_loop_failures:
  assumes "quiet e"
  shows "fails_with e url (calls s) errs \<Longrightarrow> attempt + int (length errs) \<le> maxRetries o' + 1 \<Longrightarrow>
    \<exists>s'. fetch_loop o' e url attempt lastErr s =
            fetch_loop o' e url (attempt + int (length errs)) (if errs = [] then lastErr else Some (last errs)) s'
        \<and> trace s' = trace s @ failed_attempts o' url attempt errs
        \<and> calls s' = calls s + length errs
        \<and> cache_store s' = cache_store s"
proof (induction errs arbitrary: attempt lastErr s)
  case Nil
  show ?case by (intro exI[of _ s]) simp
next
  case (Cons err errs)
  from Cons.prems have f0: "snd (http_get e (calls s) url) = Inl err"
    and frest: "fails_with e url (Suc (calls s)) errs"
    by (simp_all add: fails_with_Cons)
  from Cons.prems have le: "attempt \<le> maxRetries o'" by simp
  define s2 where "s2 = s\<lparr>clock := clock s + fst (http_get e (calls s) url), calls := calls s + 1,
        trace := trace s @ [Emit (Request url), HttpGet url, Emit (Retry url attempt err)]\<rparr>"
  define s3 where "s3 = (if attempt < maxRetries o' then sleep (retryDelay o' * of_int attempt) s2 else s2)"
  have step: "fetch_loop o' e url attempt lastErr s = fetch_loop o' e url (attempt + 1) (Some err) s3"
    using le assms
    by (subst fetch_loop.simps) (simp add: try_attempt_fail[OF assms f0] emit_quiet s2_def s3_def)
  have c3: "calls s3 = Suc (calls s)" and st3: "cache_store s3 = cache_store s"
    and t3: "trace s3 = trace s @ [Emit (Request url), HttpGet url, Emit (Retry url attempt err)]
        @ (if attempt < maxRetries o' then [Sleep (retryDelay o' * of_int attempt)] else [])"
    by (simp_all add: s3_def s2_def sleep_def)
  from frest c3 have "fails_with e url (calls s3) errs" by simp
  moreover from Cons.prems have "attempt + 1 + int (length errs) \<le> maxRetries o' + 1" by simp
  ultimately obtain s' where
    "fetch_loop o' e url (attempt + 1) (Some err) s3 =
       fetch_loop o' e url (attempt + 1 + int (length errs)) (if errs = [] then Some err else Some (last errs)) s'"
    "trace s' = trace s3 @ failed_attempts o' url (attempt + 1) errs"
    "calls s' = calls s3 + length errs" "cache_store s' = cache_store s3"
    using Cons.IH[of s3 "attempt + 1" "Some err"] by blast
  with step c3 st3 t3 show ?case
    by (intro exI[of _ s']) (simp add: add.assoc)
qed


lemma emitted_append [simp]: "emitted (xs @ ys) = emitted xs @ emitted ys"
  by (induction xs rule: emitted.induct) auto

lemma sleeps_append [simp]: "sleeps (xs @ ys) = sleeps xs @ sleeps ys"
  by (induction xs rule: sleeps.induct) auto

lemma emitted_only_sleeps: "\<forall>a \<in> set pre. \<exists>ms. a = Sleep ms \<Longrightarrow> emitted pre = []"
  by (induction pre rule: emitted.induct) auto

lemma requests_failed_attempts:
  "length (filter is_request (emitted (failed_attempts o' url a errs))) = length errs"
  by (induction errs arbitrary: a) auto

lemma retries_failed_attempts:
  "length (filter is_retry (emitted (failed_attempts o' url a errs))) = length errs"
  by (induction errs arbitrary: a) auto

lemma sleeps_failed_attempts:
  "a + int (length errs) \<le> maxRetries o' + 1 \<Longrightarrow>
   sleeps (failed_attempts o' url a errs) =
     map (\<lambda>n. retryDelay o' * of_int n) [a .. min (a + int (length errs) - 1) (maxRetries o' - 1)]"
proof (induction errs arbitrary: a)
  case Nil
  then show ?case by simp
next
  case (Cons err errs)
  show ?case
  proof (cases "a < maxRetries o'")
    case True
    have "[a .. min (a + int (length (err # errs)) - 1) (maxRetries o' - 1)]
        = a # [a + 1 .. min (a + 1 + int (length errs) - 1) (maxRetries o' - 1)]"
      using True by (subst upto_rec1) (auto simp: add.assoc)
    then show ?thesis using Cons True by simp
  next
    case False
    with Cons.prems have "errs = []" by (cases errs) auto
    with False show ?thesis by simp
  qed
qed

lemma fetch_loop_success:
  assumes "quiet e" "fails_with e url (calls s) errs"
    "snd (http_get e (calls s + length errs) url) = Inr res"
    "attempt + int (length errs) \<le> maxRetries o'"
  shows "fst (fetch_loop o' e url attempt lastErr s) = Inr (coerce_body (res_data res))"
    and "trace (snd (fetch_loop o' e url attempt lastErr s)) =
      trace s @ failed_attempts o' url attempt errs
        @ [Emit (Request url), HttpGet url, Emit (Response url (status res))]"
proof -
  from assms obtain s' where s':
    "fetch_loop o' e url attempt lastErr s =
       fetch_loop o' e url (attempt + int (length errs)) (if errs = [] then lastErr else Some (last errs)) s'"
    "trace s' = trace s @ failed_attempts o' url attempt errs"
    "calls s' = calls s + length errs"
    using fetch_loop_failures[of e url s errs attempt o' lastErr] by auto
  have ok: "snd (http_get e (calls s') url) = Inr res" using assms(3) s'(3) by simp
  obtain r s'' where t: "try_attempt o' e url s' = (r, s'')" by (cases "try_attempt o' e url s'")
  with try_attempt_ok[OF assms(1) ok, of o'] have
    r: "r = Inr (coerce_body (res_data res))"
    and tr: "trace s'' = trace s' @ [Emit (Request url), HttpGet url, Emit (Response url (status res))]"
    by simp_all
  have "fetch_loop o' e url (attempt + int (length errs)) (if errs = [] then lastErr else Some (last errs)) s'
      = (Inr (coerce_body (res_data res)), s'')"
    using assms(4) t r by (subst fetch_loop.simps) simp
  with s' tr show "fst (fetch_loop o' e url attempt lastErr s) = Inr (coerce_body (res_data res))"
    and "trace (snd (fetch_loop o' e url attempt lastErr s)) =
      trace s @ failed_attempts o' url attempt errs
        @ [Emit (Request url), HttpGet url, Emit (Response url (status res))]"
    by simp_all
qed

lemma fetch_loop_exhausted:
  assumes "quiet e" "fails_with e url (calls s) errs" "errs \<noteq> []"
    "attempt + int (length errs) = maxRetries o' + 1"
  shows "fst (fetch_loop o' e url attempt lastErr s) = Inl (FetchError url (maxRetries o') (last errs))"
    and "trace (snd (fetch_loop o' e url attempt lastErr s)) =
      trace s @ failed_attempts o' url attempt errs
        @ [Emit (ErrorEv (FetchError url (maxRetries o') (last errs)))]"
proof -
  from assms obtain s' where s':
    "fetch_loop o' e url attempt lastErr s =
       fetch_loop o' e url (attempt + int (length errs)) (if errs = [] then lastErr else Some (last errs)) s'"
    "trace s' = trace s @ failed_attempts o' url attempt errs"
    using fetch_loop_failures[of e url s errs attempt o' lastErr] by auto
  have "fetch_loop o' e url (attempt + int (length errs)) (if errs = [] then lastErr else Some (last errs)) s'
      = (Inl (FetchError url (maxRetries o') (last errs)),
         s'\<lparr>trace := trace s' @ [Emit (ErrorEv (FetchError url (maxRetries o') (last errs)))]\<rparr>)"
    using assms(1,3,4) by (subst fetch_loop.simps) (simp add: emit_quiet Let_def)
  with s' show "fst (fetch_loop o' e url attempt lastErr s) = Inl (FetchError url (maxRetries o') (last errs))"
    and "trace (snd (fetch_loop o' e url attempt lastErr s)) =
      trace s @ failed_attempts o' url attempt errs
        @ [Emit (ErrorEv (FetchError url (maxRetries o') (last errs)))]"
    by simp_all
qed

lemma fetch_miss:
  assumes "cache o' = None \<or> map_of (cache_store s) url = None"
  shows "fetch o' e (JStr url) s =
     fetch_loop o' e url 1 None (if rotateUserAgent o' then nextUA (rateGate o' s) else rateGate o' s)"
  using assms
  by (auto simp: fetch_def assert_js_def cacheGet_def Let_def split: option.splits)

lemma gated_trace:
  "\<exists>pre. trace (if rotateUserAgent o' then nextUA (rateGate o' s) else rateGate o' s) = trace s @ pre
      \<and> emitted pre = []"
  using rateGate_trace[of o' s] by (auto simp: emitted_only_sleeps)

lemma failed_attempts_snoc:
  "failed_attempts o' url a (errs @ [err]) =
     failed_attempts o' url a errs
     @ [Emit (Request url), HttpGet url, Emit (Retry url (a + int (length errs)) err)]
     @ (if a + int (length errs) < maxRetries o'
        then [Sleep (retryDelay o' * of_int (a + int (length errs)))] else [])"
  by (induction errs arbitrary: a) (auto simp: add.assoc)

text \<open>
  Claim C1. Let no listener throw, \<open>maxRetries = m \<ge> 1\<close>, and let the cache be off or
  hold no entry for the URL. If the transport fails the first \<open>k < m\<close> attempts (with
  \<open>errs\<close>, \<open>k = length errs\<close>) and then succeeds, \<open>fetch\<close> returns the body of the
  successful response and emits exactly \<open>k + 1\<close> \<open>request\<close> and \<open>k\<close> \<open>retry\<close> events.
  If it fails all \<open>m\<close> attempts, \<open>fetch\<close> throws the \<open>FetchError\<close> whose \<open>attempts\<close> is
  \<open>m\<close> and whose cause is the last failure, after \<open>m\<close> \<open>request\<close> and \<open>m\<close> \<open>retry\<close>
  events and the \<open>error\<close> event.
\<close>

theorem fetch_retry_outcome:
  assumes "quiet e" and "1 \<le> maxRetries o'"
    and "cache o' = None \<or> map_of (cache_store s) url = None"
    and "fails_with e url (calls s) errs"
  shows "(int (length errs) < maxRetries o'
          \<and> snd (http_get e (calls s + length errs) url) = Inr res \<longrightarrow>
            fst (fetch o' e (JStr url) s) = Inr (coerce_body (res_data res))
          \<and> length (filter is_request (events_since s (snd (fetch o' e (JStr url) s))))
              = length errs + 1
          \<and> length (filter is_retry (events_since s (snd (fetch o' e (JStr url) s))))
              = length errs)
       \<and> (int (length errs) = maxRetries o' \<longrightarrow>
            fst (fetch o' e (JStr url) s) = Inl (FetchError url (maxRetries o') (last errs))
          \<and> length (filter is_request (events_since s (snd (fetch o' e (JStr url) s))))
              = length errs
          \<and> length (filter is_retry (events_since s (snd (fetch o' e (JStr url) s))))
              = length errs
          \<and> ErrorEv (FetchError url (maxRetries o') (last errs))
              \<in> set (events_since s (snd (fetch o' e (JStr url) s))))"
proof -
  let ?g = "if rotateUserAgent o' then nextUA (rateGate o' s) else rateGate o' s"
  let ?s' = "snd (fetch o' e (JStr url) s)"
  have f: "fetch o' e (JStr url) s = fetch_loop o' e url 1 None ?g"
    using assms(3) by (rule fetch_miss)
  obtain pre where pre: "trace ?g = trace s @ pre" "emitted pre = []"
    using gated_trace[of o' s] by blast
  have fw: "fails_with e url (calls ?g) errs" using assms(4) by simp
  have ok: "fst (fetch o' e (JStr url) s) = Inr (coerce_body (res_data res))
          \<and> length (filter is_request (events_since s ?s')) = length errs + 1
          \<and> length (filter is_retry (events_since s ?s')) = length errs"
    if k: "int (length errs) < maxRetries o'"
      and r: "snd (http_get e (calls s + length errs) url) = Inr res"
  proof -
    have r': "snd (http_get e (calls ?g + length errs) url) = Inr res" using r by simp
    have le: "1 + int (length errs) \<le> maxRetries o'" using k by simp
    have tr: "trace ?s' = trace s @ pre @ failed_attempts o' url 1 errs
        @ [Emit (Request url), HttpGet url, Emit (Response url (status res))]"
      using fetch_loop_success(2)[OF assms(1) fw r' le, of None] pre(1) by (simp add: f)
    have ev: "events_since s ?s' = emitted (failed_attempts o' url 1 errs) @ [Request url, Response url (status res)]"
      by (simp add: events_since_def actions_since_def tr pre(2))
    show ?thesis
      using fetch_loop_success(1)[OF assms(1) fw r' le, of None]
      by (simp add: f[symmetric] ev requests_failed_attempts retries_failed_attempts)
  qed
  have ex: "fst (fetch o' e (JStr url) s) = Inl (FetchError url (maxRetries o') (last errs))
          \<and> length (filter is_request (events_since s ?s')) = length errs
          \<and> length (filter is_retry (events_since s ?s')) = length errs
          \<and> ErrorEv (FetchError url (maxRetries o') (last errs)) \<in> set (events_since s ?s')"
    if k: "int (length errs) = maxRetries o'"
  proof -
    have ne: "errs \<noteq> []" using k assms(2) by auto
    have eq: "1 + int (length errs) = maxRetries o' + 1" using k by simp
    have tr: "trace ?s' = trace s @ pre @ failed_attempts o' url 1 errs
        @ [Emit (ErrorEv (FetchError url (maxRetries o') (last errs)))]"
      using fetch_loop_exhausted(2)[OF assms(1) fw ne eq, of None] pre(1) by (simp add: f)
    have ev: "events_since s ?s' = emitted (failed_attempts o' url 1 errs)
        @ [ErrorEv (FetchError url (maxRetries o') (last errs))]"
      by (simp add: events_since_def actions_since_def tr pre(2))
    show ?thesis
      using fetch_loop_exhausted(1)[OF assms(1) fw ne eq, of None]
      by (simp add: f[symmetric] ev requests_failed_attempts retries_failed_attempts)
  qed
  from ok ex show ?thesis by blast
qed

text \<open>
  Three attempts allowed: a transport that fails twice, and one that fails every time.
\<close>

theorem fetch_retry_outcome_witness:
  "quiet (flaky 2) \<and> 1 \<le> maxRetries test_opts
   \<and> fails_with (flaky 2) ''u'' 0 [Thrown ''ECONNRESET'', Thrown ''ECONNRESET'']
   \<and> fst (fetch test_opts (flaky 2) (JStr ''u'') (new_scrapely 0)) = Inr ''body of u''
   \<and> length (filter is_request (events_since (new_scrapely 0)
        (snd (fetch test_opts (flaky 2) (JStr ''u'') (new_scrapely 0))))) = 3
   \<and> length (filter is_retry (events_since (new_scrapely 0)
        (snd (fetch test_opts (flaky 2) (JStr ''u'') (new_scrapely 0))))) = 2
   \<and> fails_with (flaky 9) ''u'' 0 [Thrown ''ECONNRESET'', Thrown ''ECONNRESET'', Thrown ''ECONNRESET'']
   \<and> fst (fetch test_opts (flaky 9) (JStr ''u'') (new_scrapely 0)) =
        Inl (FetchError ''u'' 3 (Thrown ''ECONNRESET''))
   \<and> meta_attempts (FetchError ''u'' 3 (Thrown ''ECONNRESET'')) = maxRetries test_opts"
proof -
  have q: "quiet (flaky k)" for k by (simp add: quiet_def flaky_def)
  have m: "1 \<le> maxRetries test_opts" by (simp add: test_opts_def)
  have c: "cache test_opts = None \<or> map_of (cache_store (new_scrapely 0)) ''u'' = None"
    by (simp add: test_opts_def)
  have f2: "fails_with (flaky 2) ''u'' (calls (new_scrapely 0)) [Thrown ''ECONNRESET'', Thrown ''ECONNRESET'']"
    by (simp add: fails_with_def flaky_def new_scrapely_def less_Suc_eq)
  have f9: "fails_with (flaky 9) ''u'' (calls (new_scrapely 0))
      [Thrown ''ECONNRESET'', Thrown ''ECONNRESET'', Thrown ''ECONNRESET'']"
    by (simp add: fails_with_def flaky_def new_scrapely_def less_Suc_eq)
  show ?thesis
    using fetch_retry_outcome [OF q m c f2, of "\<lparr>status = 200, res_data = JStr ''body of u''\<rparr>"]
      fetch_retry_outcome [OF q m c f9] q m f2 f9
    by (simp add: test_opts_def flaky_def new_scrapely_def coerce_body_def)
qed

text \<open>
  Claim C5. Under the conditions of C1, what one call of \<open>fetch\<close> does after the rate
  gate is exactly: one attempt after the other, each failed attempt \<open>n\<close> being the
  \<open>request\<close> event, the transport call, the \<open>retry\<close> event and then, when
  \<open>n < maxRetries\<close>, one sleep of \<open>retryDelay * n\<close> before attempt \<open>n + 1\<close> starts. So
  the sleeps of a call that succeeds after \<open>k\<close> failures are
  \<open>retryDelay * 1, ..., retryDelay * k\<close>, those of a call that fails \<open>maxRetries\<close> times
  are \<open>retryDelay * 1, ..., retryDelay * (maxRetries - 1)\<close>, and the \<open>error\<close> event
  follows the last \<open>retry\<close> event with no sleep between them.
\<close>

theorem fetch_linear_backoff:
  assumes "quiet e" and "1 \<le> maxRetries o'"
    and "cache o' = None \<or> map_of (cache_store s) url = None"
    and "fails_with e url (calls s) errs"
  shows "(int (length errs) < maxRetries o'
          \<and> snd (http_get e (calls s + length errs) url) = Inr res \<longrightarrow>
            actions_since (rateGate o' s) (snd (fetch o' e (JStr url) s)) =
              failed_attempts o' url 1 errs
              @ [Emit (Request url), HttpGet url, Emit (Response url (status res))]
          \<and> sleeps (actions_since (rateGate o' s) (snd (fetch o' e (JStr url) s))) =
              map (\<lambda>n. retryDelay o' * of_int n) [1 .. int (length errs)])
       \<and> (int (length errs) = maxRetries o' \<longrightarrow>
            actions_since (rateGate o' s) (snd (fetch o' e (JStr url) s)) =
              failed_attempts o' url 1 (butlast errs)
              @ [Emit (Request url), HttpGet url, Emit (Retry url (maxRetries o') (last errs)),
                 Emit (ErrorEv (FetchError url (maxRetries o') (last errs)))]
          \<and> sleeps (actions_since (rateGate o' s) (snd (fetch o' e (JStr url) s))) =
              map (\<lambda>n. retryDelay o' * of_int n) [1 .. maxRetries o' - 1])"
proof -
  let ?g = "if rotateUserAgent o' then nextUA (rateGate o' s) else rateGate o' s"
  let ?s' = "snd (fetch o' e (JStr url) s)"
  have f: "fetch o' e (JStr url) s = fetch_loop o' e url 1 None ?g"
    using assms(3) by (rule fetch_miss)
  have g: "trace ?g = trace (rateGate o' s)" by simp
  have fw: "fails_with e url (calls ?g) errs" using assms(4) by simp
  have ok: "actions_since (rateGate o' s) ?s' =
              failed_attempts o' url 1 errs
              @ [Emit (Request url), HttpGet url, Emit (Response url (status res))]
          \<and> sleeps (actions_since (rateGate o' s) ?s') =
              map (\<lambda>n. retryDelay o' * of_int n) [1 .. int (length errs)]"
    if k: "int (length errs) < maxRetries o'"
      and r: "snd (http_get e (calls s + length errs) url) = Inr res"
  proof -
    have r': "snd (http_get e (calls ?g + length errs) url) = Inr res" using r by simp
    have le: "1 + int (length errs) \<le> maxRetries o'" using k by simp
    have tr: "trace ?s' = trace (rateGate o' s) @ failed_attempts o' url 1 errs
        @ [Emit (Request url), HttpGet url, Emit (Response url (status res))]"
      using fetch_loop_success(2)[OF assms(1) fw r' le, of None] g by (simp add: f)
    have "min (1 + int (length errs) - 1) (maxRetries o' - 1) = int (length errs)"
      using k by simp
    then have sl: "sleeps (failed_attempts o' url 1 errs) =
        map (\<lambda>n. retryDelay o' * of_int n) [1 .. int (length errs)]"
      using sleeps_failed_attempts[of 1 errs o' url] le by simp
    show ?thesis by (simp add: actions_since_def tr sl)
  qed
  have ex: "actions_since (rateGate o' s) ?s' =
              failed_attempts o' url 1 (butlast errs)
              @ [Emit (Request url), HttpGet url, Emit (Retry url (maxRetries o') (last errs)),
                 Emit (ErrorEv (FetchError url (maxRetries o') (last errs)))]
          \<and> sleeps (actions_since (rateGate o' s) ?s') =
              map (\<lambda>n. retryDelay o' * of_int n) [1 .. maxRetries o' - 1]"
    if k: "int (length errs) = maxRetries o'"
  proof -
    have ne: "errs \<noteq> []" using k assms(2) by auto
    have eq: "1 + int (length errs) = maxRetries o' + 1" using k by simp
    have tr: "trace ?s' = trace (rateGate o' s) @ failed_attempts o' url 1 errs
        @ [Emit (ErrorEv (FetchError url (maxRetries o') (last errs)))]"
      using fetch_loop_exhausted(2)[OF assms(1) fw ne eq, of None] g by (simp add: f)
    have "min (1 + int (length errs) - 1) (maxRetries o' - 1) = maxRetries o' - 1"
      using k by simp
    then have sl: "sleeps (failed_attempts o' url 1 errs) =
        map (\<lambda>n. retryDelay o' * of_int n) [1 .. maxRetries o' - 1]"
      using sleeps_failed_attempts[of 1 errs o' url] eq by simp
    have bl: "1 + int (length errs - Suc 0) = maxRetries o'"
      using k ne by (cases errs rule: rev_cases) auto
    have "failed_attempts o' url 1 (butlast errs @ [last errs]) =
        failed_attempts o' url 1 (butlast errs)
        @ [Emit (Request url), HttpGet url, Emit (Retry url (maxRetries o') (last errs))]"
      by (subst failed_attempts_snoc) (simp add: bl)
    then have fa: "failed_attempts o' url 1 errs =
        failed_attempts o' url 1 (butlast errs)
        @ [Emit (Request url), HttpGet url, Emit (Retry url (maxRetries o') (last errs))]"
      using ne by simp
    have acts: "actions_since (rateGate o' s) ?s' = failed_attempts o' url 1 errs
        @ [Emit (ErrorEv (FetchError url (maxRetries o') (last errs)))]"
      by (simp add: actions_since_def tr)
    show ?thesis
      using sl by (simp add: acts) (simp add: fa)
  qed
  from ok ex show ?thesis by blast
qed

text \<open>
  With \<open>retryDelay = 1000\<close> and three attempts: sleeps of 1000 and 2000 when all
  attempts fail, one sleep of 1000 when the second attempt succeeds.
\<close>

theorem fetch_linear_backoff_witness:
  "quiet (flaky 9) \<and> 1 \<le> maxRetries test_opts
   \<and> fails_with (flaky 9) ''u'' 0 [Thrown ''ECONNRESET'', Thrown ''ECONNRESET'', Thrown ''ECONNRESET'']
   \<and> actions_since (rateGate test_opts (new_scrapely 0))
        (snd (fetch test_opts (flaky 9) (JStr ''u'') (new_scrapely 0))) =
       [Emit (Request ''u''), HttpGet ''u'', Emit (Retry ''u'' 1 (Thrown ''ECONNRESET'')), Sleep 1000,
        Emit (Request ''u''), HttpGet ''u'', Emit (Retry ''u'' 2 (Thrown ''ECONNRESET'')), Sleep 2000,
        Emit (Request ''u''), HttpGet ''u'', Emit (Retry ''u'' 3 (Thrown ''ECONNRESET'')),
        Emit (ErrorEv (FetchError ''u'' 3 (Thrown ''ECONNRESET'')))]
   \<and> fails_with (flaky 1) ''u'' 0 [Thrown ''ECONNRESET'']
   \<and> actions_since (rateGate test_opts (new_scrapely 0))
        (snd (fetch test_opts (flaky 1) (JStr ''u'') (new_scrapely 0))) =
       [Emit (Request ''u''), HttpGet ''u'', Emit (Retry ''u'' 1 (Thrown ''ECONNRESET'')), Sleep 1000,
        Emit (Request ''u''), HttpGet ''u'', Emit (Response ''u'' 200)]"
proof -
  have q: "quiet (flaky k)" for k by (simp add: quiet_def flaky_def)
  have m: "1 \<le> maxRetries test_opts" by (simp add: test_opts_def)
  have c: "cache test_opts = None \<or> map_of (cache_store (new_scrapely 0)) ''u'' = None"
    by (simp add: test_opts_def)
  have f1: "fails_with (flaky 1) ''u'' (calls (new_scrapely 0)) [Thrown ''ECONNRESET'']"
    by (simp add: fails_with_def flaky_def new_scrapely_def less_Suc_eq)
  have f9: "fails_with (flaky 9) ''u'' (calls (new_scrapely 0))
      [Thrown ''ECONNRESET'', Thrown ''ECONNRESET'', Thrown ''ECONNRESET'']"
    by (simp add: fails_with_def flaky_def new_scrapely_def less_Suc_eq)
  show ?thesis
    using fetch_linear_backoff [OF q m c f1, of "\<lparr>status = 200, res_data = JStr ''body of u''\<rparr>"]
      fetch_linear_backoff [OF q m c f9] q m f1 f9
    by (simp add: test_opts_def flaky_def new_scrapely_def)
qed

text \<open>
  Claim C4, amended. For every \<open>url\<close> that is not a string, \<open>fetch\<close> throws the
  \<open>ValidationError\<close> for \<open>url\<close> and leaves the instance and the world as they were:
  no rate-gate wait, no rotation, no cache access, no event, no transport call, no retry.
  Every string, the empty one included, passes the check.
\<close>

theorem fetch_rejects_non_string:
  "(typeof url \<noteq> ''string'' \<longrightarrow>
      fetch o' e url s = (Inl (ValidationError ''url'' ''must be a string''), s))
   \<and> assert_js (JStr u) ExpString ''url'' = None"
  by (simp add: fetch_def assert_js_def)

text \<open>
  \<open>fetch(42)\<close> and \<open>fetch(undefined)\<close>.
\<close>

theorem fetch_rejects_non_string_witness:
  "typeof (JNum 42) \<noteq> ''string''
   \<and> fetch test_opts (flaky 0) (JNum 42) (new_scrapely 0) =
       (Inl (ValidationError ''url'' ''must be a string''), new_scrapely 0)
   \<and> error_code (ValidationError ''url'' ''must be a string'') = Some ''ERR_VALIDATION''
   \<and> trace (snd (fetch test_opts (flaky 0) JUndefined (new_scrapely 0))) = []"
  using fetch_rejects_non_string [of "JNum 42" test_opts "flaky 0" "new_scrapely 0"]
    fetch_rejects_non_string [of JUndefined test_opts "flaky 0" "new_scrapely 0"]
  by (simp add: new_scrapely_def)

text \<open>
  Claim C4, as stated, fails for the empty string: \<open>fetch('')\<close> passes the check and goes
  to the transport. When the transport refuses the URL every time, the call ends after
  three attempts and two back-off sleeps with a \<open>FetchError\<close>, not a
  \<open>ValidationError\<close>; when the transport answers, the body is returned.
\<close>

theorem fetch_empty_url_counterexample:
  "fst (fetch test_opts (flaky 9) (JStr '''') (new_scrapely 0)) =
     Inl (FetchError '''' 3 (Thrown ''ECONNRESET''))
   \<and> trace (snd (fetch test_opts (flaky 9) (JStr '''') (new_scrapely 0))) =
       [Emit (Request ''''), HttpGet '''', Emit (Retry '''' 1 (Thrown ''ECONNRESET'')), Sleep 1000,
        Emit (Request ''''), HttpGet '''', Emit (Retry '''' 2 (Thrown ''ECONNRESET'')), Sleep 2000,
        Emit (Request ''''), HttpGet '''', Emit (Retry '''' 3 (Thrown ''ECONNRESET'')),
        Emit (ErrorEv (FetchError '''' 3 (Thrown ''ECONNRESET'')))]
   \<and> fst (fetch test_opts (flaky 0) (JStr '''') (new_scrapely 0)) = Inr ''body of ''"
  by (simp add: fetch_def assert_js_def test_opts_def flaky_def new_scrapely_def rateGate_def
      fetch_loop.simps try_attempt_def emit_def sleep_def coerce_body_def Let_def)

lemma try_attempt_quiet_cong:
  "quiet e \<Longrightarrow> quiet e' \<Longrightarrow> http_get e' = http_get e \<Longrightarrow>
   try_attempt o' e' url s = try_attempt o' e url s"
  by (simp add: try_attempt_def emit_quiet Let_def split: prod.splits sum.splits)

lemma fetch_loop_quiet_cong:
  assumes "quiet e" "quiet e'" "http_get e' = http_get e"
  shows "fetch_loop o' e' url a l s = fetch_loop o' e url a l s"
proof (induction "nat (maxRetries o' + 1 - a)" arbitrary: a l s)
  case 0
  then have gt: "\<not> a \<le> maxRetries o'" by simp
  show ?case
    by (subst fetch_loop.simps, subst (2) fetch_loop.simps)
      (simp add: gt emit_quiet assms Let_def split: option.splits)
next
  case (Suc n)
  then have le: "a \<le> maxRetries o'" by simp
  have IH: "fetch_loop o' e' url (a + 1) l' s' = fetch_loop o' e url (a + 1) l' s'" for l' s'
    using Suc(1)[of "a + 1" l' s'] Suc(2) by simp
  show ?case
    by (subst fetch_loop.simps, subst (2) fetch_loop.simps)
      (simp add: le emit_quiet assms try_attempt_quiet_cong[OF assms] IH
         split: prod.splits sum.splits)
qed

text \<open>
  Claim C8, amended. An exception of a listener is not kept away from \<open>fetch\<close>. When
  no listener throws, the result and the final state of \<open>fetch\<close> are those the transport
  determines, whichever listeners are registered. A \<open>request\<close> listener that throws makes
  the attempt fail in its own \<open>catch\<close> before the transport is called. A \<open>retry\<close>
  listener that throws on the first failed attempt makes \<open>fetch\<close> throw the listener's
  exception.
\<close>

theorem fetch_observer_failures:
  "(quiet e \<and> quiet e' \<and> http_get e' = http_get e \<longrightarrow>
      fetch o' e' url s = fetch o' e url s)
   \<and> (on_event e (Request u) = Some x \<longrightarrow>
        try_attempt o' e u s = (Inl x, s\<lparr>trace := trace s @ [Emit (Request u)]\<rparr>))
   \<and> (1 \<le> maxRetries o' \<and> (cache o' = None \<or> map_of (cache_store s) u = None)
        \<and> on_event e (Request u) = None \<and> snd (http_get e (calls s) u) = Inl err
        \<and> on_event e (Retry u 1 err) = Some x \<longrightarrow>
        fst (fetch o' e (JStr u) s) = Inl x)"
proof -
  have a: "fetch o' e' url s = fetch o' e url s"
    if "quiet e" "quiet e'" "http_get e' = http_get e"
    using that
    by (simp add: fetch_def emit_quiet fetch_loop_quiet_cong[OF that] Let_def
        split: option.splits prod.splits)
  have b: "try_attempt o' e u s = (Inl x, s\<lparr>trace := trace s @ [Emit (Request u)]\<rparr>)"
    if "on_event e (Request u) = Some x"
    using that by (simp add: try_attempt_def emit_def)
  have c: "fst (fetch o' e (JStr u) s) = Inl x"
    if m: "1 \<le> maxRetries o'" and c: "cache o' = None \<or> map_of (cache_store s) u = None"
      and q: "on_event e (Request u) = None" and f: "snd (http_get e (calls s) u) = Inl err"
      and r: "on_event e (Retry u 1 err) = Some x"
  proof -
    define g where "g = (if rotateUserAgent o' then nextUA (rateGate o' s) else rateGate o' s)"
    have fl: "fetch o' e (JStr u) s = fetch_loop o' e u 1 None g"
      unfolding g_def using c by (rule fetch_miss)
    have "snd (http_get e (calls g) u) = Inl err" using f by (simp add: g_def)
    then obtain s2 where t: "try_attempt o' e u g = (Inl err, s2)"
      using q by (cases "http_get e (calls g) u") (simp add: try_attempt_def emit_def)
    have "fst (fetch_loop o' e u 1 None g) = Inl x"
      using m r by (subst fetch_loop.simps) (simp add: t emit_def)
    with fl show ?thesis by simp
  qed
  from a b c show ?thesis by blast
qed

text \<open>
  No listener and a silent \<open>error\<close> listener; a throwing \<open>request\<close> listener; a
  throwing \<open>retry\<close> listener on a transport that fails once.
\<close>

theorem fetch_observer_failures_witness:
  "quiet (flaky 1) \<and> quiet ((flaky 1)\<lparr>has_error_listener := True\<rparr>)
   \<and> fetch test_opts ((flaky 1)\<lparr>has_error_listener := True\<rparr>) (JStr ''u'') (new_scrapely 0)
       = fetch test_opts (flaky 1) (JStr ''u'') (new_scrapely 0)
   \<and> on_event (request_listener_throws 0) (Request ''u'') = Some (Thrown ''listener'')
   \<and> try_attempt test_opts (request_listener_throws 0) ''u'' (new_scrapely 0) =
       (Inl (Thrown ''listener''), (new_scrapely 0)\<lparr>trace := [Emit (Request ''u'')]\<rparr>)
   \<and> on_event (retry_listener_throws 1) (Request ''u'') = None
   \<and> snd (http_get (retry_listener_throws 1) 0 ''u'') = Inl (Thrown ''ECONNRESET'')
   \<and> on_event (retry_listener_throws 1) (Retry ''u'' 1 (Thrown ''ECONNRESET'')) = Some (Thrown ''listener'')
   \<and> fst (fetch test_opts (retry_listener_throws 1) (JStr ''u'') (new_scrapely 0)) = Inl (Thrown ''listener'')"
  using fetch_observer_failures [of "flaky 1" "(flaky 1)\<lparr>has_error_listener := True\<rparr>"
        test_opts "JStr ''u''" "new_scrapely 0" "''u''" "Thrown ''listener''" "Thrown ''ECONNRESET''"]
    fetch_observer_failures [of "request_listener_throws 0" "flaky 1"
        test_opts "JStr ''u''" "new_scrapely 0" "''u''" "Thrown ''listener''" "Thrown ''ECONNRESET''"]
    fetch_observer_failures [of "retry_listener_throws 1" "flaky 1"
        test_opts "JStr ''u''" "new_scrapely 0" "''u''" "Thrown ''listener''" "Thrown ''ECONNRESET''"]
  by (simp add: quiet_def flaky_def test_opts_def new_scrapely_def request_listener_throws_def
      retry_listener_throws_def)

text \<open>
  Claim C8, as stated, fails. The transport fails once and then succeeds: without
  listeners \<open>fetch\<close> returns the body, with a throwing \<open>retry\<close> listener it throws the
  listener's exception. The transport fails every time: without listeners \<open>fetch\<close>
  throws the \<open>FetchError\<close>, with the throwing \<open>retry\<close> listener the listener's
  exception. The transport always succeeds and the \<open>request\<close> listener throws: every
  attempt fails and \<open>fetch\<close> throws a \<open>FetchError\<close> caused by the listener.
\<close>

theorem fetch_observer_aborts_counterexample:
  "fst (fetch test_opts (flaky 1) (JStr ''u'') (new_scrapely 0)) = Inr ''body of u''
   \<and> fst (fetch test_opts (retry_listener_throws 1) (JStr ''u'') (new_scrapely 0)) =
       Inl (Thrown ''listener'')
   \<and> fst (fetch test_opts (flaky 9) (JStr ''u'') (new_scrapely 0)) =
       Inl (FetchError ''u'' 3 (Thrown ''ECONNRESET''))
   \<and> fst (fetch test_opts (retry_listener_throws 9) (JStr ''u'') (new_scrapely 0)) =
       Inl (Thrown ''listener'')
   \<and> fst (fetch test_opts (request_listener_throws 0) (JStr ''u'') (new_scrapely 0)) =
       Inl (FetchError ''u'' 3 (Thrown ''listener''))"
  by (simp add: fetch_def assert_js_def test_opts_def flaky_def new_scrapely_def rateGate_def
      retry_listener_throws_def request_listener_throws_def
      fetch_loop.simps try_attempt_def emit_def sleep_def coerce_body_def Let_def)

section \<open>Properties of paginate\<close>

lemmas run_defs =
  fetch_def assert_js_def test_opts_def flaky_def new_scrapely_def rateGate_def
  fetch_loop.simps try_attempt_def emit_def sleep_def coerce_body_def Let_def
  load_def paginate_def paginate_loop.simps nextUrl_def resolveUrl_def

text \<open>
  Claim C6. After a page has been loaded and its data extracted, \<open>paginate\<close> ends with
  the accumulator exactly when \<open>stopWhen(view, accumulator, page)\<close> is true, or the page
  is page \<open>maxPages\<close>, or no next link resolves from the page (none, or an empty URL);
  otherwise it goes on with the resolved link as page \<open>page + 1\<close>. On the chain of three
  pages it requests \<open>p1\<close>, \<open>p2\<close>, \<open>p3\<close> and returns the items page by page, in the
  order of each page; with \<open>stopWhen\<close> true at page 2 it requests \<open>p1\<close> and \<open>p2\<close> only.
\<close>

theorem paginate_deciding:
  assumes "page \<le> maxP" and "u \<noteq> []" and "load o' e d (JStr u) s = (Inr doc, s1)"
  shows "paginate_loop o' e d po nextSel maxP page (Some u) collected s =
     (let collected1 = (case dataExtractor po of
                          Some extract \<Rightarrow> push_data collected (extract doc u page)
                        | None \<Rightarrow> collected);
          stop = (case stopWhen po of Some f \<Rightarrow> f doc collected1 page | None \<Rightarrow> False);
          nxt = nextUrl d doc nextSel u
      in if stop \<or> page = maxP \<or> nxt = None \<or> nxt = Some []
         then (Inr collected1, s1)
         else paginate_loop o' e d po nextSel maxP (page + 1) nxt collected1 s1)
   \<and> fst (paginate test_opts (flaky 0) chain_dom (JStr ''p1'') chain_opts (new_scrapely 0))
        = Inr [''a1'', ''a2'', ''b1'', ''c1'', ''c2'']
   \<and> visited (trace (snd (paginate test_opts (flaky 0) chain_dom (JStr ''p1'') chain_opts
        (new_scrapely 0)))) = [''p1'', ''p2'', ''p3'']
   \<and> fst (paginate test_opts (flaky 0) chain_dom (JStr ''p1'')
        (chain_opts\<lparr>stopWhen := Some (\<lambda>doc acc page. page = 2)\<rparr>) (new_scrapely 0))
        = Inr [''a1'', ''a2'', ''b1'']
   \<and> visited (trace (snd (paginate test_opts (flaky 0) chain_dom (JStr ''p1'')
        (chain_opts\<lparr>stopWhen := Some (\<lambda>doc acc page. page = 2)\<rparr>) (new_scrapely 0))))
        = [''p1'', ''p2'']"
proof -
  have step: "paginate_loop o' e d po nextSel maxP page (Some u) collected s =
     (let collected1 = (case dataExtractor po of
                          Some extract \<Rightarrow> push_data collected (extract doc u page)
                        | None \<Rightarrow> collected);
          stop = (case stopWhen po of Some f \<Rightarrow> f doc collected1 page | None \<Rightarrow> False);
          nxt = nextUrl d doc nextSel u
      in if stop \<or> page = maxP \<or> nxt = None \<or> nxt = Some []
         then (Inr collected1, s1)
         else paginate_loop o' e d po nextSel maxP (page + 1) nxt collected1 s1)"
  proof -
    have end1: "paginate_loop o' e d po nextSel maxP (maxP + 1) nxt c s1 = (Inr c, s1)" for nxt c
      by (subst paginate_loop.simps) (auto split: option.splits)
    have end2: "paginate_loop o' e d po nextSel maxP p None c s1 = (Inr c, s1)" for p c
      by (subst paginate_loop.simps) simp
    have end3: "paginate_loop o' e d po nextSel maxP p (Some []) c s1 = (Inr c, s1)" for p c
      by (subst paginate_loop.simps) simp
    show ?thesis
      using assms
      by (subst paginate_loop.simps) (auto simp: Let_def end1 end2 end3)
  qed
  have c1: "paginate test_opts (flaky 0) chain_dom (JStr ''p1'') chain_opts (new_scrapely 0) =
      (Inr [''a1'', ''a2'', ''b1'', ''c1'', ''c2''],
       (new_scrapely 0)\<lparr>clock := 60, calls := 3,
          trace := [Emit (Request ''p1''), HttpGet ''p1'', Emit (Response ''p1'' 200),
                    Emit (Request ''p2''), HttpGet ''p2'', Emit (Response ''p2'' 200),
                    Emit (Request ''p3''), HttpGet ''p3'', Emit (Response ''p3'' 200)]\<rparr>)"
    by (simp add: run_defs chain_dom_def chain_opts_def chain_items_def DEFAULT_MAX_PAGES_def)
  have c2: "paginate test_opts (flaky 0) chain_dom (JStr ''p1'')
        (chain_opts\<lparr>stopWhen := Some (\<lambda>doc acc page. page = 2)\<rparr>) (new_scrapely 0) =
      (Inr [''a1'', ''a2'', ''b1''],
       (new_scrapely 0)\<lparr>clock := 40, calls := 2,
          trace := [Emit (Request ''p1''), HttpGet ''p1'', Emit (Response ''p1'' 200),
                    Emit (Request ''p2''), HttpGet ''p2'', Emit (Response ''p2'' 200)]\<rparr>)"
    by (simp add: run_defs chain_dom_def chain_opts_def chain_items_def DEFAULT_MAX_PAGES_def)
  show ?thesis
    unfolding c1 c2 using step by simp
qed

text \<open>The first page of the chain: not the last, so the loop goes on with \<open>p2\<close>.\<close>

theorem paginate_deciding_witness:
  "(1::int) \<le> 50 \<and> ''p1'' \<noteq> []
   \<and> load test_opts (flaky 0) chain_dom (JStr ''p1'') (new_scrapely 0) =
       (Inr ''body of p1'',
        (new_scrapely 0)\<lparr>clock := 20, calls := 1,
          trace := [Emit (Request ''p1''), HttpGet ''p1'', Emit (Response ''p1'' 200)]\<rparr>)
   \<and> paginate_loop test_opts (flaky 0) chain_dom chain_opts DEFAULT_NEXT_SELECTOR 50 1
        (Some ''p1'') [] (new_scrapely 0) =
      paginate_loop test_opts (flaky 0) chain_dom chain_opts DEFAULT_NEXT_SELECTOR 50 2
        (Some ''p2'') [''a1'', ''a2'']
        ((new_scrapely 0)\<lparr>clock := 20, calls := 1,
          trace := [Emit (Request ''p1''), HttpGet ''p1'', Emit (Response ''p1'' 200)]\<rparr>)"
proof -
  have h1: "(1::int) \<le> 50" by simp
  have h2: "''p1'' \<noteq> []" by simp
  have h3: "load test_opts (flaky 0) chain_dom (JStr ''p1'') (new_scrapely 0) =
       (Inr ''body of p1'',
        (new_scrapely 0)\<lparr>clock := 20, calls := 1,
          trace := [Emit (Request ''p1''), HttpGet ''p1'', Emit (Response ''p1'' 200)]\<rparr>)"
    by (simp add: run_defs chain_dom_def)
  show ?thesis
    using paginate_deciding [OF h1 h2 h3, of chain_opts DEFAULT_NEXT_SELECTOR "[]"] h3
    by (simp add: chain_opts_def chain_items_def nextUrl_def resolveUrl_def chain_dom_def)
qed


lemma paginate_loop_opts_cong:
  assumes "dataExtractor po' = dataExtractor po" "stopWhen po' = stopWhen po"
    "ignoreErrors po' = ignoreErrors po"
  shows "paginate_loop o' e d po' ns mp page cur coll s =
         paginate_loop o' e d po ns mp page cur coll s"
proof (induction "nat (mp + 1 - page)" arbitrary: page cur coll s)
  case 0
  then have gt: "\<not> page \<le> mp" by simp
  show ?case
    by (subst paginate_loop.simps, subst (2) paginate_loop.simps)
      (simp add: gt split: option.splits)
next
  case (Suc n)
  have IH: "paginate_loop o' e d po' ns mp (page + 1) cur' coll' s' =
      paginate_loop o' e d po ns mp (page + 1) cur' coll' s'" for cur' coll' s'
    using Suc(1)[of "page + 1" cur' coll' s'] Suc(2) by simp
  show ?case
    by (subst paginate_loop.simps, subst (2) paginate_loop.simps)
      (simp add: assms IH Let_def split: option.splits prod.splits sum.splits)
qed

lemma paginate_loop_maxPages_update:
  "paginate_loop o' e d (po\<lparr>maxPages := x\<rparr>) ns mp page cur coll s =
   paginate_loop o' e d po ns mp page cur coll s"
  by (rule paginate_loop_opts_cong) simp_all

lemma paginate_maxPages_default:
  "paginate o' e d startUrl (po\<lparr>maxPages := Some 0\<rparr>) s =
   paginate o' e d startUrl (po\<lparr>maxPages := None\<rparr>) s"
  "paginate o' e d startUrl (po\<lparr>maxPages := Some 0\<rparr>) s =
   paginate o' e d startUrl (po\<lparr>maxPages := Some DEFAULT_MAX_PAGES\<rparr>) s"
  by (simp_all add: paginate_def Let_def DEFAULT_MAX_PAGES_def paginate_loop_maxPages_update
      split: option.splits)

text \<open>
  Claim C10. \<open>paginate\<close> with \<open>maxPages = 0\<close> behaves as with \<open>maxPages\<close> absent and as
  with \<open>maxPages = 50\<close>: it does not visit zero pages. On a site whose chain of next
  links never ends it requests 50 pages, on the chain of three pages all three.
  \<open>scrapeMultiple\<close> with \<open>concurrency = 0\<close> behaves as with \<open>concurrency\<close> absent and as
  with \<open>concurrency = 3\<close>.
\<close>

theorem zero_options_fall_back_to_defaults:
  "paginate o' e d startUrl (po\<lparr>maxPages := Some 0\<rparr>) s =
     paginate o' e d startUrl (po\<lparr>maxPages := None\<rparr>) s
   \<and> paginate o' e d startUrl (po\<lparr>maxPages := Some 0\<rparr>) s =
     paginate o' e d startUrl (po\<lparr>maxPages := Some DEFAULT_MAX_PAGES\<rparr>) s
   \<and> DEFAULT_MAX_PAGES = 50
   \<and> length (visited (trace (snd (paginate test_opts (flaky 0) endless_dom (JStr ''p1'')
        (chain_opts\<lparr>maxPages := Some 0\<rparr>) (new_scrapely 0))))) = 50
   \<and> visited (trace (snd (paginate test_opts (flaky 0) chain_dom (JStr ''p1'')
        (chain_opts\<lparr>maxPages := Some 0\<rparr>) (new_scrapely 0)))) = [''p1'', ''p2'', ''p3'']
   \<and> scrapeMultiple task urls \<lparr>concurrency = Some 0, batch_ignoreErrors = ign\<rparr> =
     scrapeMultiple task urls \<lparr>concurrency = None, batch_ignoreErrors = ign\<rparr>
   \<and> scrapeMultiple task urls \<lparr>concurrency = Some 0, batch_ignoreErrors = ign\<rparr> =
     scrapeMultiple task urls \<lparr>concurrency = Some DEFAULT_CONCURRENCY, batch_ignoreErrors = ign\<rparr>
   \<and> DEFAULT_CONCURRENCY = 3"
proof -
  have a: "length (visited (trace (snd (paginate test_opts (flaky 0) endless_dom (JStr ''p1'')
        (chain_opts\<lparr>maxPages := Some 0\<rparr>) (new_scrapely 0))))) = 50"
    by (simp add: run_defs endless_dom_def chain_dom_def chain_opts_def chain_items_def
        DEFAULT_MAX_PAGES_def)
  have b: "visited (trace (snd (paginate test_opts (flaky 0) chain_dom (JStr ''p1'')
        (chain_opts\<lparr>maxPages := Some 0\<rparr>) (new_scrapely 0)))) = [''p1'', ''p2'', ''p3'']"
    by (simp add: run_defs chain_dom_def chain_opts_def chain_items_def DEFAULT_MAX_PAGES_def)
  have c: "scrapeMultiple task urls \<lparr>concurrency = Some 0, batch_ignoreErrors = ign\<rparr> =
     scrapeMultiple task urls \<lparr>concurrency = None, batch_ignoreErrors = ign\<rparr>"
    "scrapeMultiple task urls \<lparr>concurrency = Some 0, batch_ignoreErrors = ign\<rparr> =
     scrapeMultiple task urls \<lparr>concurrency = Some DEFAULT_CONCURRENCY, batch_ignoreErrors = ign\<rparr>"
    by (simp_all add: scrapeMultiple_def DEFAULT_CONCURRENCY_def split: option.splits)
  show ?thesis
    using paginate_maxPages_default[of o' e d startUrl po s] a b c
    by (simp add: DEFAULT_MAX_PAGES_def DEFAULT_CONCURRENCY_def)
qed

section \<open>Properties of scrapeMultiple\<close>

lemma settled_eq:
  "map (\<lambda>(j, url). task j url) (zip [i ..< i + length batch] batch) = settle_from task i batch"
proof (induction batch arbitrary: i)
  case Nil
  show ?case by simp
next
  case (Cons u us)
  have "[i ..< i + length (u # us)] = i # [Suc i ..< Suc i + length us]"
    using upt_rec[of i "i + Suc (length us)"] by simp
  then show ?case using Cons[of "Suc i"] by simp
qed

lemma settle_from_append:
  "settle_from task i (xs @ ys) = settle_from task i xs @ settle_from task (i + length xs) ys"
  by (induction xs arbitrary: i) auto

lemma length_settle_from [simp]: "length (settle_from task i xs) = length xs"
  by (induction xs arbitrary: i) auto

lemma settle_from_take_drop:
  "settle_from task i xs = settle_from task i (take c xs) @ settle_from task (i + c) (drop c xs)"
proof (cases "c \<le> length xs")
  case True
  then have "length (take c xs) = c" by simp
  then show ?thesis
    using settle_from_append[of task i "take c xs" "drop c xs"] by simp
next
  case False
  then show ?thesis by simp
qed

lemma fulfilled_append: "fulfilled (xs @ ys) = fulfilled xs @ fulfilled ys"
  by (induction xs rule: fulfilled.induct) auto

lemma first_rejected_append:
  "first_rejected (xs @ ys) =
     (case first_rejected xs of
        Some p \<Rightarrow> Some p
      | None \<Rightarrow> map_option (\<lambda>(k, err). (k + length xs, err)) (first_rejected ys))"
proof (induction xs rule: first_rejected.induct)
  case 1
  show ?case by (cases "first_rejected ys") auto
next
  case (2 err rest)
  show ?case by simp
next
  case (3 v rest)
  then show ?case by (cases "first_rejected rest"; cases "first_rejected ys") auto
qed

lemma first_rejected_less: "first_rejected xs = Some (k, err) \<Longrightarrow> k < length xs"
  by (induction xs arbitrary: k rule: first_rejected.induct) (auto split: option.splits)

lemma collect_settled_ignore:
  "collect_settled True xs results = Inr (results @ fulfilled xs)"
  by (induction xs arbitrary: results rule: fulfilled.induct) auto

lemma collect_settled_strict:
  "collect_settled False xs results =
     (case first_rejected xs of
        None \<Rightarrow> Inr (results @ fulfilled xs)
      | Some (k, err) \<Rightarrow> Inl err)"
  by (induction xs arbitrary: results rule: fulfilled.induct) (auto split: option.splits)

lemma scrape_loop_ignore:
  assumes "0 < c"
  shows "scrape_loop task True c urls i results started =
     Some (Inr (results @ fulfilled (settle_from task i (drop i urls))), started @ drop i urls)"
proof (induction "length urls - i" arbitrary: i results started rule: less_induct)
  case less
  show ?case
  proof (cases "i < length urls")
    case False
    then show ?thesis by (subst scrape_loop.simps) simp
  next
    case True
    define X where "X = drop i urls"
    define B where "B = settle_from task i (take c X)"
    define R where "R = settle_from task (i + c) (drop c X)"
    have dr: "drop (i + c) urls = drop c X" by (simp add: X_def add.commute)
    have lt: "length urls - (i + c) < length urls - i" using True assms by simp
    have IH: "scrape_loop task True c urls (i + c) r st =
        Some (Inr (r @ fulfilled R), st @ drop c X)" for r st
      using less[OF lt, of r st] unfolding dr R_def .
    have split: "settle_from task i X = B @ R"
      unfolding B_def R_def by (rule settle_from_take_drop)
    have step: "scrape_loop task True c urls i results started =
        scrape_loop task True c urls (i + c) (results @ fulfilled B) (started @ take c X)"
      using True assms
      by (subst scrape_loop.simps)
        (simp add: settled_eq collect_settled_ignore Let_def X_def B_def)
    have "scrape_loop task True c urls i results started =
        Some (Inr (results @ fulfilled (settle_from task i X)), started @ X)"
      by (simp add: step IH split fulfilled_append)
    then show ?thesis by (simp add: X_def)
  qed
qed

lemma scrape_loop_strict:
  assumes "0 < c"
  shows "scrape_loop task False c urls i results started =
     (case first_rejected (settle_from task i (drop i urls)) of
        None \<Rightarrow>
          Some (Inr (results @ fulfilled (settle_from task i (drop i urls))), started @ drop i urls)
      | Some (k, err) \<Rightarrow>
          Some (Inl err, started @ take ((k div c + 1) * c) (drop i urls)))"
proof (induction "length urls - i" arbitrary: i results started rule: less_induct)
  case less
  show ?case
  proof (cases "i < length urls")
    case False
    then show ?thesis by (subst scrape_loop.simps) simp
  next
    case True
    define X where "X = drop i urls"
    define B where "B = settle_from task i (take c X)"
    define R where "R = settle_from task (i + c) (drop c X)"
    have dr: "drop (i + c) urls = drop c X" by (simp add: X_def add.commute)
    have lt: "length urls - (i + c) < length urls - i" using True assms by simp
    have IH: "scrape_loop task False c urls (i + c) r st =
       (case first_rejected R of
          None \<Rightarrow> Some (Inr (r @ fulfilled R), st @ drop c X)
        | Some (k, err) \<Rightarrow> Some (Inl err, st @ take ((k div c + 1) * c) (drop c X)))" for r st
      using less[OF lt, of r st] unfolding dr R_def .
    have split: "settle_from task i X = B @ R"
      unfolding B_def R_def by (rule settle_from_take_drop)
    have lenB: "length B = min c (length X)" by (simp add: B_def)
    have lenR: "length R = length X - c" by (simp add: R_def)
    have goal: "scrape_loop task False c urls i results started =
     (case first_rejected (settle_from task i X) of
        None \<Rightarrow> Some (Inr (results @ fulfilled (settle_from task i X)), started @ X)
      | Some (k, err) \<Rightarrow> Some (Inl err, started @ take ((k div c + 1) * c) X))"
    proof (cases "first_rejected B")
      case (Some p)
      obtain k err where p: "p = (k, err)" by (cases p)
      from Some p have "k < length B" by (auto dest: first_rejected_less)
      then have kc: "k < c" by (simp add: lenB)
      have fr: "first_rejected (settle_from task i X) = Some (k, err)"
        by (simp add: split first_rejected_append Some p)
      have "scrape_loop task False c urls i results started = Some (Inl err, started @ take c X)"
        using True assms Some p
        by (subst scrape_loop.simps)
          (simp add: settled_eq collect_settled_strict Let_def X_def B_def)
      then show ?thesis using kc by (simp add: fr)
    next
      case None
      have step: "scrape_loop task False c urls i results started =
          scrape_loop task False c urls (i + c) (results @ fulfilled B) (started @ take c X)"
        using True assms None
        by (subst scrape_loop.simps)
          (simp add: settled_eq collect_settled_strict Let_def X_def B_def)
      show ?thesis
      proof (cases "first_rejected R")
        case N2: None
        have fr: "first_rejected (settle_from task i X) = None"
          by (simp add: split first_rejected_append None N2)
        show ?thesis by (simp add: step IH N2 fr) (simp add: split fulfilled_append)
      next
        case (Some p)
        obtain k err where p: "p = (k, err)" by (cases p)
        from Some p have "k < length R" by (auto dest: first_rejected_less)
        then have "c < length X" by (simp add: lenR)
        then have lb: "length B = c" by (simp add: lenB)
        have fr: "first_rejected (settle_from task i X) = Some (k + c, err)"
          by (simp add: split first_rejected_append None Some p lb)
        have dv: "(k + c) div c = k div c + 1" using assms by simp
        have "((k + c) div c + 1) * c = c + (k div c + 1) * c" using dv by simp
        then have tk: "take (((k + c) div c + 1) * c) X =
            take c X @ take ((k div c + 1) * c) (drop c X)"
          by (simp only: take_add)
        show ?thesis
          unfolding step IH fr Some p
          by (simp only: option.case prod.case tk append_assoc)
      qed
    qed
    then show ?thesis unfolding X_def .
  qed
qed

text \<open>
  Claim C7. With \<open>ignoreErrors = true\<close>, \<open>scrapeMultiple\<close> starts every item and returns
  the values of the fulfilled items in the order of \<open>urls\<close>; rejected items are left out.
  With \<open>ignoreErrors = false\<close> and no rejected item the result is the same; with a
  rejected item the call throws the reason of the first rejected item (in the order of
  \<open>urls\<close>), and the items started are those of the windows up to the window of that
  item: later windows are not started. With \<open>concurrency = 2\<close>, five URLs and the third
  rejected, \<open>ignoreErrors = true\<close> gives the four other values in their order.
\<close>

theorem scrapeMultiple_partial_failure:
  "scrapeMultiple task (Some urls) \<lparr>concurrency = cc, batch_ignoreErrors = True\<rparr> =
      Some (Inr (fulfilled (settle_from task 0 urls)), urls)
   \<and> (first_rejected (settle_from task 0 urls) = None \<longrightarrow>
        scrapeMultiple task (Some urls) \<lparr>concurrency = cc, batch_ignoreErrors = False\<rparr> =
          Some (Inr (fulfilled (settle_from task 0 urls)), urls))
   \<and> (first_rejected (settle_from task 0 urls) = Some (k, err) \<longrightarrow>
        scrapeMultiple task (Some urls) \<lparr>concurrency = cc, batch_ignoreErrors = False\<rparr> =
          (let c = (case cc of
                      Some n \<Rightarrow> if n \<noteq> 0 then n else DEFAULT_CONCURRENCY
                    | None \<Rightarrow> DEFAULT_CONCURRENCY)
           in Some (Inl err, take ((k div c + 1) * c) urls)))
   \<and> scrapeMultiple third_fails (Some five_urls) \<lparr>concurrency = Some 2, batch_ignoreErrors = True\<rparr> =
        Some (Inr [''ok u1'', ''ok u2'', ''ok u4'', ''ok u5''], five_urls)"
proof -
  define c where "c = (case cc of
                      Some n \<Rightarrow> if n \<noteq> 0 then n else DEFAULT_CONCURRENCY
                    | None \<Rightarrow> DEFAULT_CONCURRENCY)"
  have pos: "0 < c" by (simp add: c_def DEFAULT_CONCURRENCY_def split: option.splits)
  have sm: "scrapeMultiple task (Some urls) \<lparr>concurrency = cc, batch_ignoreErrors = ign\<rparr> =
      scrape_loop task ign c urls 0 [] []" for ign
    by (simp add: scrapeMultiple_def c_def)
  have ex: "scrapeMultiple third_fails (Some five_urls) \<lparr>concurrency = Some 2, batch_ignoreErrors = True\<rparr> =
        Some (Inr [''ok u1'', ''ok u2'', ''ok u4'', ''ok u5''], five_urls)"
    by (simp add: scrapeMultiple_def scrape_loop_ignore five_urls_def third_fails_def)
  show ?thesis
    using scrape_loop_ignore[OF pos, of task urls 0 "[]" "[]"]
      scrape_loop_strict[OF pos, of task urls 0 "[]" "[]"] ex
    by (simp add: sm c_def[symmetric] Let_def)
qed

text \<open>
  \<open>ignoreErrors = false\<close>, windows of two: five fulfilled items; and the third rejected,
  where the fifth item, in the third window, is never started.
\<close>

theorem scrapeMultiple_partial_failure_witness:
  "first_rejected (settle_from (\<lambda>i url. Inr (''ok '' @ url)) 0 five_urls) = None
   \<and> scrapeMultiple (\<lambda>i url. Inr (''ok '' @ url)) (Some five_urls)
        \<lparr>concurrency = Some 2, batch_ignoreErrors = False\<rparr> =
       Some (Inr [''ok u1'', ''ok u2'', ''ok u3'', ''ok u4'', ''ok u5''], five_urls)
   \<and> first_rejected (settle_from third_fails 0 five_urls) = Some (2, Thrown ''boom'')
   \<and> scrapeMultiple third_fails (Some five_urls)
        \<lparr>concurrency = Some 2, batch_ignoreErrors = False\<rparr> =
       Some (Inl (Thrown ''boom''), [''u1'', ''u2'', ''u3'', ''u4''])"
  using scrapeMultiple_partial_failure
      [of "\<lambda>i url. Inr (''ok '' @ url)" five_urls "Some 2" 0 "Thrown ''boom''"]
    scrapeMultiple_partial_failure [of third_fails five_urls "Some 2" 2 "Thrown ''boom''"]
  by (simp add: five_urls_def third_fails_def)

section \<open>Properties of extractList\<close>

lemma update_new_key:
  "key \<notin> fst ` set al \<Longrightarrow> AList.update key v al = al @ [(key, v)]"
  by (induction al) auto

lemma foldl_update_distinct:
  "distinct (map fst schema) \<Longrightarrow> fst ` set acc \<inter> fst ` set schema = {} \<Longrightarrow>
   foldl (\<lambda>item (key, def). AList.update key (f def) item) acc schema =
     acc @ map (\<lambda>(key, def). (key, f def)) schema"
proof (induction schema arbitrary: acc)
  case Nil
  show ?case by simp
next
  case (Cons p schema)
  obtain key def where p: "p = (key, def)" by (cases p)
  from Cons.prems p have new: "key \<notin> fst ` set acc" by auto
  have "fst ` set (acc @ [(key, f def)]) \<inter> fst ` set schema = {}"
    using Cons.prems p by auto
  moreover have "distinct (map fst schema)" using Cons.prems by simp
  ultimately show ?case
    using Cons.IH[of "acc @ [(key, f def)]"] by (simp add: p update_new_key[OF new])
qed

lemma extract_item_distinct:
  "distinct (map fst schema) \<Longrightarrow>
   extract_item d doc schema container =
     map (\<lambda>(key, def). (key, field_value d doc container def)) schema"
  using foldl_update_distinct[of schema "[]" "field_value d doc container"]
  by (simp add: extract_item_def)

lemma field_value_multiple [simp]:
  "field_value d doc container (def\<lparr>multiple := b\<rparr>) = field_value d doc container def"
  by (simp add: field_value_def)

lemma extract_item_multiple:
  "extract_item d doc (map (\<lambda>(key, def). (key, def\<lparr>multiple := b key\<rparr>)) schema) container =
   extract_item d doc schema container"
proof -
  have "foldl (\<lambda>item (key, def). AList.update key (field_value d doc container def) item) acc
          (map (\<lambda>(key, def). (key, def\<lparr>multiple := b key\<rparr>)) schema) =
        foldl (\<lambda>item (key, def). AList.update key (field_value d doc container def) item) acc
          schema" for acc
    by (induction schema arbitrary: acc) (auto simp: case_prod_beta)
  then show ?thesis by (simp add: extract_item_def)
qed

text \<open>
  Claim C9. When the page loads and the schema's keys are distinct (they are the keys
  of an object), \<open>extractList\<close> returns one record per element matching
  \<open>containerSelector\<close>, in document order, and each field of a record holds one value:
  the value read, by the field's type, from the first element matching the field's
  selector under that container (transformed when a \<open>transform\<close> is given). The
  \<open>multiple\<close> flag of a field definition has no effect on the value or on the result.
\<close>

theorem extractList_ignores_multiple:
  assumes "load o' e d url s = (Inr doc, s1)" and "distinct (map fst schema)"
  shows "extractList o' e d url (JStr csel) (Some schema) s =
      (Inr (map (\<lambda>container. map (\<lambda>(key, def). (key, field_value d doc container def)) schema)
             (select d doc csel)), s1)
    \<and> (\<forall>container def. field_value d doc container def =
         (let el = take 1 (find_in d doc container (selector def));
              raw = readValue d doc el (case ftype def of None \<Rightarrow> ''text'' | Some t \<Rightarrow> t)
                      (attribute def)
          in case transform def of Some f \<Rightarrow> f raw doc el | None \<Rightarrow> raw))
    \<and> (\<forall>container def b.
         field_value d doc container (def\<lparr>multiple := b\<rparr>) = field_value d doc container def)
    \<and> extractList o' e d url (JStr csel)
         (Some (map (\<lambda>(key, def). (key, def\<lparr>multiple := b key\<rparr>)) schema)) s =
       extractList o' e d url (JStr csel) (Some schema) s"
proof -
  have a: "extractList o' e d url (JStr csel) (Some schema) s =
      (Inr (map (\<lambda>container. map (\<lambda>(key, def). (key, field_value d doc container def)) schema)
             (select d doc csel)), s1)"
    using assms by (simp add: extractList_def assert_js_def extract_item_distinct)
  have b: "extractList o' e d url (JStr csel)
         (Some (map (\<lambda>(key, def). (key, def\<lparr>multiple := b key\<rparr>)) schema)) s =
       extractList o' e d url (JStr csel) (Some schema) s"
    by (simp add: extractList_def extract_item_multiple split: option.splits prod.splits sum.splits)
  show ?thesis
    using a b by (simp add: field_value_def Let_def)
qed

text \<open>
  A field with \<open>multiple = true\<close> whose selector matches two elements in the first
  container and none in the second: the first record holds the trimmed text of the
  first match, the second the empty string.
\<close>

theorem extractList_ignores_multiple_witness:
  "load test_opts (flaky 0) list_dom (JStr ''p1'') (new_scrapely 0) =
       (Inr ''body of p1'',
        (new_scrapely 0)\<lparr>clock := 20, calls := 1,
          trace := [Emit (Request ''p1''), HttpGet ''p1'', Emit (Response ''p1'' 200)]\<rparr>)
   \<and> distinct (map fst tag_schema)
   \<and> multiple (snd (hd tag_schema))
   \<and> find_in list_dom ''body of p1'' ''i1'' ''.tag'' = [''first'', ''second'']
   \<and> fst (extractList test_opts (flaky 0) list_dom (JStr ''p1'') (JStr ''.item'') (Some tag_schema)
        (new_scrapely 0)) = Inr [[(''tag'', JStr ''first'')], [(''tag'', JStr '''')]]"
proof -
  have h1: "load test_opts (flaky 0) list_dom (JStr ''p1'') (new_scrapely 0) =
       (Inr ''body of p1'',
        (new_scrapely 0)\<lparr>clock := 20, calls := 1,
          trace := [Emit (Request ''p1''), HttpGet ''p1'', Emit (Response ''p1'' 200)]\<rparr>)"
    by (simp add: fetch_def assert_js_def test_opts_def flaky_def new_scrapely_def rateGate_def
      fetch_loop.simps try_attempt_def emit_def sleep_def coerce_body_def Let_def
      load_def list_dom_def chain_dom_def)
  have h2: "distinct (map fst tag_schema)" by (simp add: tag_schema_def)
  show ?thesis
    using extractList_ignores_multiple [OF h1 h2, of "''.item''" "\<lambda>key. True"] h1 h2
    by (simp add: tag_schema_def list_dom_def chain_dom_def field_value_def readValue_def
        trim_def is_space_def)
qed

end
